theory Spec2Isabelle
  imports Complex_Main "HOL-Library.Word"
begin

section \<open>Slidescape: opening a whole-slide image and loading its tiles\<close>

text \<open>
  This theory embeds the parts of \<^verbatim>\<open>src/core/viewer_io_file.cpp\<close> that build the
  level pyramid of an image opened through OpenSlide (\<^verbatim>\<open>load_wsi\<close> and the OpenSlide
  branch of \<^verbatim>\<open>load_image_from_file\<close>) and that decode one tile on a worker thread
  (\<^verbatim>\<open>load_tile_func\<close>, \<^verbatim>\<open>viewer_notify_load_tile_completed\<close>). The worker loop of
  \<^verbatim>\<open>src/platform/linux_main.cpp\<close> runs on several threads at once and is not embedded.

  Conventions of the embedding:
  \<^item> C structs are records. Field names are those of the source with a prefix naming the
    struct (\<open>wl_\<close> for \<^verbatim>\<open>wsi_level_t\<close>, \<open>wsi_\<close> for \<^verbatim>\<open>wsi_t\<close>, \<open>li_\<close> for
    \<^verbatim>\<open>level_image_t\<close>, \<open>image_\<close> for \<^verbatim>\<open>image_t\<close>, \<open>t_\<close> for \<^verbatim>\<open>tile_t\<close>, \<open>task_\<close> for
    \<^verbatim>\<open>load_tile_task_t\<close>, \<open>ct_\<close> for \<^verbatim>\<open>viewer_notify_tile_completed_task_t\<close>),
    because several structs share field names.
  \<^item> \<^verbatim>\<open>i32\<close> and \<^verbatim>\<open>i64\<close> values are \<open>int\<close>. The explicit narrowing cast
    \<^verbatim>\<open>(i32)\<close> is written out (\<open>i32_cast\<close>); signed overflow of \<^verbatim>\<open>+\<close> and \<^verbatim>\<open>*\<close> is
    undefined behaviour in C and is not given a value here.
  \<^item> \<^verbatim>\<open>float\<close> values are \<open>real\<close>: rounding of IEEE arithmetic is not modelled.
    The conversion \<^verbatim>\<open>(int)\<close> of a float truncates towards zero (\<open>float_to_int\<close>).
  \<^item> \<^verbatim>\<open>ASSERT\<close>, \<^verbatim>\<open>panic\<close> and out-of-bounds writes end the computation with a value
    of type \<open>error\<close>; a function that can fail returns \<open>error + 'a\<close>.
  \<^item> Fixed-size C arrays are lists of the array's length, written by \<open>xs[i := v]\<close>.
  \<^item> A pointer that may be \<^verbatim>\<open>NULL\<close> is an \<open>option\<close>.
\<close>

subsection \<open>C arithmetic\<close>

text \<open>The cast \<^verbatim>\<open>(i32)\<close> of a 64-bit value keeps the low 32 bits, read as two's complement.\<close>

definition i32_cast :: "int \<Rightarrow> int" where
  "i32_cast x = (x + 2 ^ 31) mod 2 ^ 32 - 2 ^ 31"

text \<open>C's \<^verbatim>\<open>/\<close> and \<^verbatim>\<open>%\<close> on integers round the quotient towards zero.\<close>

definition c_div :: "int \<Rightarrow> int \<Rightarrow> int" where
  "c_div a b = (if (a < 0) = (b < 0) then \<bar>a\<bar> div \<bar>b\<bar> else - (\<bar>a\<bar> div \<bar>b\<bar>))"

definition c_mod :: "int \<Rightarrow> int \<Rightarrow> int" where
  "c_mod a b = a - b * c_div a b"

text \<open>The cast \<^verbatim>\<open>(int)\<close> of a float drops the fractional part.\<close>

definition float_to_int :: "real \<Rightarrow> int" where
  "float_to_int r = (if 0 \<le> r then \<lfloor>r\<rfloor> else \<lceil>r\<rceil>)"

text \<open>\<^verbatim>\<open>exp2f\<close> applied to an integer.\<close>

definition exp2f :: "int \<Rightarrow> real" where
  "exp2f n = (if 0 \<le> n then 2 ^ nat n else inverse (2 ^ nat (- n)))"

subsection \<open>Errors\<close>

text \<open>
  \<open>AssertionFailure\<close> carries the text of the failed condition. \<open>Panic\<close> is the outcome
  of a call of \<^verbatim>\<open>panic()\<close>: the call does not return, so the function that makes it
  produces no value. \<open>OutOfBounds\<close> stands for a write or an index outside an array,
  which is undefined behaviour in C.
\<close>

datatype error =
    AssertionFailure string
  | Panic
  | OutOfBounds

text \<open>
  Modelled from the spec: the \<^verbatim>\<open>ASSERT\<close> macro (its header is not among the sources).
  The specification treats a violated invariant as unrecoverable: the call path ends
  abruptly. \<open>ASSERT c msg rest\<close> is the statement \<^verbatim>\<open>ASSERT(c);\<close> followed by the
  statements \<open>rest\<close>; \<open>msg\<close> is the text of the condition.
\<close>

definition ASSERT :: "bool \<Rightarrow> string \<Rightarrow> error + 'a \<Rightarrow> error + 'a" where
  "ASSERT c msg rest = (if c then rest else Inl (AssertionFailure msg))"

text \<open>
  Modelled from the spec: \<^verbatim>\<open>panic()\<close>, which "terminates the process or the call path
  abruptly".
\<close>

definition panic :: "error + 'a" where
  "panic = Inl Panic"

declare ASSERT_def [simp] panic_def [simp]

subsection \<open>Constants of the build\<close>

text \<open>
  \<^verbatim>\<open>WSI_TILE_DIM\<close> and \<^verbatim>\<open>WSI_MAX_LEVELS\<close> are macros of a header that is not among the
  sources; they are parameters here. \<^verbatim>\<open>WSI_MAX_LEVELS\<close> is also taken as the length of
  the arrays \<^verbatim>\<open>wsi->levels\<close> and \<^verbatim>\<open>image.level_images\<close>, which the two \<^verbatim>\<open>panic\<close>
  checks of the source guard.
\<close>

record config =
  WSI_TILE_DIM :: int
  WSI_MAX_LEVELS :: int

text \<open>Modelled from the spec: \<^verbatim>\<open>BYTES_PER_PIXEL\<close>, "a fixed 4-bytes-per-pixel" buffer.\<close>

definition BYTES_PER_PIXEL :: int where
  "BYTES_PER_PIXEL = 4"

subsection \<open>The OpenSlide library, as seen by the viewer\<close>

text \<open>
  What the calls on an opened slide return. \<open>get_level_downsample_level osr i\<close> stands for
  \<^verbatim>\<open>(i32) roundf(log2f(openslide_get_level_downsample(osr, i)))\<close>: the float library
  functions are not modelled, their rounded result is an input. \<open>mpp_x_property\<close> is
  \<^verbatim>\<open>atof\<close> of the property \<^verbatim>\<open>openslide.mpp-x\<close> converted to \<^verbatim>\<open>float\<close>, and \<open>None\<close>
  when the property is absent; likewise for y.
\<close>

record openslide_t =
  get_error :: bool
  get_level_count :: int
  get_level0_dimensions :: "int \<times> int"
  get_level_dimensions :: "int \<Rightarrow> int \<times> int"
  get_level_downsample_level :: "int \<Rightarrow> int"
  mpp_x_property :: "real option"
  mpp_y_property :: "real option"

subsection \<open>Data model\<close>

record wsi_level_t =
  wl_width :: int
  wl_height :: int
  wl_width_in_tiles :: int
  wl_height_in_tiles :: int
  wl_tile_width :: int
  wl_tile_height :: int
  wl_tile_count :: int
  wl_um_per_pixel_x :: real
  wl_um_per_pixel_y :: real
  wl_x_tile_side_in_um :: real
  wl_y_tile_side_in_um :: real
  wl_downsample_level :: int
  wl_downsample_factor :: real

definition wsi_level_zero :: wsi_level_t where
  "wsi_level_zero =
     \<lparr>wl_width = 0, wl_height = 0, wl_width_in_tiles = 0, wl_height_in_tiles = 0,
      wl_tile_width = 0, wl_tile_height = 0, wl_tile_count = 0,
      wl_um_per_pixel_x = 0, wl_um_per_pixel_y = 0,
      wl_x_tile_side_in_um = 0, wl_y_tile_side_in_um = 0,
      wl_downsample_level = 0, wl_downsample_factor = 0\<rparr>"

record wsi_t =
  wsi_osr :: "openslide_t option"
  wsi_level_count :: int
  wsi_width :: int
  wsi_height :: int
  wsi_tile_width :: int
  wsi_tile_height :: int
  wsi_mpp_x :: real
  wsi_mpp_y :: real
  wsi_is_mpp_known :: bool
  wsi_max_downsample_level :: int
  wsi_levels :: "wsi_level_t list"

definition wsi_zero :: "config \<Rightarrow> wsi_t" where
  "wsi_zero cfg =
     \<lparr>wsi_osr = None, wsi_level_count = 0, wsi_width = 0, wsi_height = 0,
      wsi_tile_width = 0, wsi_tile_height = 0, wsi_mpp_x = 0, wsi_mpp_y = 0,
      wsi_is_mpp_known = False, wsi_max_downsample_level = 0,
      wsi_levels = replicate (nat (WSI_MAX_LEVELS cfg)) wsi_level_zero\<rparr>"

record tile_t =
  t_tile_index :: int
  t_tile_x :: int
  t_tile_y :: int

definition tile_zero :: tile_t where
  "tile_zero = \<lparr>t_tile_index = 0, t_tile_x = 0, t_tile_y = 0\<rparr>"

record level_image_t =
  li_exists :: bool
  li_pyramid_image_index :: int
  li_downsample_factor :: real
  li_tile_count :: int
  li_width_in_tiles :: int
  li_height_in_tiles :: int
  li_tile_width :: int
  li_tile_height :: int
  li_um_per_pixel_x :: real
  li_um_per_pixel_y :: real
  li_x_tile_side_in_um :: real
  li_y_tile_side_in_um :: real
  li_tiles :: "tile_t list"

definition level_image_zero :: level_image_t where
  "level_image_zero =
     \<lparr>li_exists = False, li_pyramid_image_index = 0, li_downsample_factor = 0,
      li_tile_count = 0, li_width_in_tiles = 0, li_height_in_tiles = 0,
      li_tile_width = 0, li_tile_height = 0,
      li_um_per_pixel_x = 0, li_um_per_pixel_y = 0,
      li_x_tile_side_in_um = 0, li_y_tile_side_in_um = 0, li_tiles = []\<rparr>"

datatype image_backend =
    IMAGE_BACKEND_NONE
  | IMAGE_BACKEND_STBI
  | IMAGE_BACKEND_TIFF
  | IMAGE_BACKEND_OPENSLIDE
  | IMAGE_BACKEND_ISYNTAX
  | IMAGE_BACKEND_DICOM

datatype image_type = IMAGE_TYPE_NONE | IMAGE_TYPE_WSI

record image_t =
  image_type :: image_type
  image_backend :: image_backend
  image_is_valid :: bool
  image_is_freshly_loaded :: bool
  image_mpp_x :: real
  image_mpp_y :: real
  image_is_mpp_known :: bool
  image_tile_width :: int
  image_tile_height :: int
  image_width_in_pixels :: int
  image_width_in_um :: real
  image_height_in_pixels :: int
  image_height_in_um :: real
  image_level_count :: int
  image_level_images :: "level_image_t list"
  image_wsi :: wsi_t

definition image_zero :: "config \<Rightarrow> image_t" where
  "image_zero cfg =
     \<lparr>image_type = IMAGE_TYPE_NONE, image_backend = IMAGE_BACKEND_NONE,
      image_is_valid = False, image_is_freshly_loaded = False,
      image_mpp_x = 0, image_mpp_y = 0, image_is_mpp_known = False,
      image_tile_width = 0, image_tile_height = 0,
      image_width_in_pixels = 0, image_width_in_um = 0,
      image_height_in_pixels = 0, image_height_in_um = 0,
      image_level_count = 0,
      image_level_images = replicate (nat (WSI_MAX_LEVELS cfg)) level_image_zero,
      image_wsi = wsi_zero cfg\<rparr>"

subsection \<open>\<^verbatim>\<open>unload_wsi\<close> and \<^verbatim>\<open>load_wsi\<close>\<close>

definition unload_wsi :: "wsi_t \<Rightarrow> wsi_t" where
  "unload_wsi wsi = wsi\<lparr>wsi_osr := None\<rparr>"

text \<open>Lines 215 to 233: the microns-per-pixel properties.\<close>

definition load_wsi_mpp :: "openslide_t \<Rightarrow> wsi_t \<Rightarrow> wsi_t" where
  "load_wsi_mpp osr wsi0 =
     (let wsi1 = wsi0\<lparr>wsi_mpp_x := 1, wsi_mpp_y := 1, wsi_is_mpp_known := False\<rparr>;
          wsi2 = (case mpp_x_property osr of
                    None \<Rightarrow> wsi1
                  | Some mpp \<Rightarrow>
                      if mpp > 0 then wsi1\<lparr>wsi_mpp_x := mpp, wsi_is_mpp_known := True\<rparr>
                      else wsi1)
      in (case mpp_y_property osr of
            None \<Rightarrow> wsi2
          | Some mpp \<Rightarrow>
              if mpp > 0 then wsi2\<lparr>wsi_mpp_y := mpp, wsi_is_mpp_known := True\<rparr>
              else wsi2))"

text \<open>Lines 236 to 259: the body of the loop over the native levels.\<close>

definition load_wsi_level :: "config \<Rightarrow> openslide_t \<Rightarrow> wsi_t \<Rightarrow> int \<Rightarrow> error + wsi_t" where
  "load_wsi_level cfg osr wsi i =
     (let (w, h) = get_level_dimensions osr i in
      ASSERT (w > 0) ''level->width > 0'' (
      ASSERT (h > 0) ''level->height > 0'' (
        let partial_block_x = c_mod w (WSI_TILE_DIM cfg);
            partial_block_y = c_mod h (WSI_TILE_DIM cfg);
            width_in_tiles = i32_cast (c_div w (WSI_TILE_DIM cfg))
                               + (if partial_block_x \<noteq> 0 then 1 else 0);
            height_in_tiles = i32_cast (c_div h (WSI_TILE_DIM cfg))
                               + (if partial_block_y \<noteq> 0 then 1 else 0);
            downsample_level = get_level_downsample_level osr i;
            downsample_factor = exp2f downsample_level;
            um_per_pixel_x = downsample_factor * wsi_mpp_x wsi;
            um_per_pixel_y = downsample_factor * wsi_mpp_y wsi;
            level = \<lparr>wl_width = w, wl_height = h,
                     wl_width_in_tiles = width_in_tiles,
                     wl_height_in_tiles = height_in_tiles,
                     wl_tile_width = WSI_TILE_DIM cfg,
                     wl_tile_height = WSI_TILE_DIM cfg,
                     wl_tile_count = width_in_tiles * height_in_tiles,
                     wl_um_per_pixel_x = um_per_pixel_x,
                     wl_um_per_pixel_y = um_per_pixel_y,
                     wl_x_tile_side_in_um = um_per_pixel_x * of_int (WSI_TILE_DIM cfg),
                     wl_y_tile_side_in_um = um_per_pixel_y * of_int (WSI_TILE_DIM cfg),
                     wl_downsample_level = downsample_level,
                     wl_downsample_factor = downsample_factor\<rparr>
        in Inr (wsi\<lparr>wsi_levels := (wsi_levels wsi)[nat i := level],
                    wsi_max_downsample_level :=
                      max downsample_level (wsi_max_downsample_level wsi)\<rparr>))))"

text \<open>Lines 235 to 262: the loop \<^verbatim>\<open>for (i32 i = 0; i < wsi->level_count; ++i)\<close>.\<close>

function load_wsi_levels :: "config \<Rightarrow> openslide_t \<Rightarrow> int \<Rightarrow> wsi_t \<Rightarrow> error + wsi_t" where
  "load_wsi_levels cfg osr i wsi =
     (if i < wsi_level_count wsi then
        (case load_wsi_level cfg osr wsi i of
           Inl e \<Rightarrow> Inl e
         | Inr wsi' \<Rightarrow> load_wsi_levels cfg osr (i + 1) wsi')
      else Inr wsi)"
  by pat_completeness auto
termination
  by (relation "measure (\<lambda>(cfg, osr, i, wsi). nat (wsi_level_count wsi - i))")
     (auto simp: load_wsi_level_def Let_def split: prod.splits if_splits)

declare load_wsi_levels.simps [simp del]

text \<open>
  \<^verbatim>\<open>load_wsi\<close>, from the result of \<^verbatim>\<open>openslide_open\<close> (\<open>None\<close> for \<^verbatim>\<open>NULL\<close>). The
  wait for the OpenSlide library to be loaded and the logging are left out.
\<close>

definition load_wsi :: "config \<Rightarrow> wsi_t \<Rightarrow> openslide_t option \<Rightarrow> error + wsi_t" where
  "load_wsi cfg wsi0 opened =
     (let wsi1 = (unload_wsi wsi0)\<lparr>wsi_osr := opened\<rparr> in
      case wsi_osr wsi1 of
        None \<Rightarrow> Inr wsi1
      | Some osr \<Rightarrow>
          if get_error osr then Inr (unload_wsi wsi1)
          else
            let wsi2 = wsi1\<lparr>wsi_level_count := get_level_count osr\<rparr> in
            if wsi_level_count wsi2 = - 1 then Inr (unload_wsi wsi2)
            else if wsi_level_count wsi2 > WSI_MAX_LEVELS cfg then panic
            else
              let (w, h) = get_level0_dimensions osr;
                  wsi3 = wsi2\<lparr>wsi_width := w, wsi_height := h\<rparr>
              in
              ASSERT (wsi_width wsi3 > 0) ''wsi->width > 0'' (
              ASSERT (wsi_height wsi3 > 0) ''wsi->height > 0'' (
                let wsi4 = wsi3\<lparr>wsi_tile_width := WSI_TILE_DIM cfg,
                                 wsi_tile_height := WSI_TILE_DIM cfg\<rparr>;
                    wsi5 = load_wsi_mpp osr wsi4
                in load_wsi_levels cfg osr 0 wsi5)))"

subsection \<open>The OpenSlide branch of \<^verbatim>\<open>load_image_from_file\<close>\<close>

text \<open>
  Lines 683 to 691: the scan of the native levels, from \<open>wsi_level_index\<close> on, for the
  first one whose downsample level is the wanted one. \<open>Some i\<close> is the value of
  \<^verbatim>\<open>wsi_level_index\<close> at the \<^verbatim>\<open>break\<close>; \<open>None\<close> means that
  \<^verbatim>\<open>found_wsi_level_for_downsample_level\<close> stays false.
\<close>

function find_wsi_level :: "wsi_t \<Rightarrow> int \<Rightarrow> int \<Rightarrow> int option" where
  "find_wsi_level wsi wsi_level_index wanted_downsample_level =
     (if wsi_level_index < wsi_level_count wsi then
        (if wl_downsample_level (wsi_levels wsi ! nat wsi_level_index) = wanted_downsample_level
         then Some wsi_level_index
         else find_wsi_level wsi (wsi_level_index + 1) wanted_downsample_level)
      else None)"
  by pat_completeness auto
termination
  by (relation "measure (\<lambda>(wsi, i, wanted). nat (wsi_level_count wsi - i))") auto

declare find_wsi_level.simps [simp del]

text \<open>
  Lines 720 to 730: the loop that stores in every tile its own index and grid position.
\<close>

function init_tiles :: "level_image_t \<Rightarrow> int \<Rightarrow> level_image_t" where
  "init_tiles li i =
     (if i < li_tile_count li then
        init_tiles
          (li\<lparr>li_tiles := (li_tiles li)
                [nat i := (li_tiles li ! nat i)
                   \<lparr>t_tile_index := i,
                    t_tile_x := c_mod i (li_width_in_tiles li),
                    t_tile_y := c_div i (li_width_in_tiles li)\<rparr>]\<rparr>)
          (i + 1)
      else li)"
  by pat_completeness auto
termination
  by (relation "measure (\<lambda>(li, i). nat (li_tile_count li - i))") auto

declare init_tiles.simps [simp del]

text \<open>
  Lines 695 to 730: the level is backed by the native level \<open>wsi_file_level\<close>, found at
  index \<open>wsi_level_index\<close>. \<^verbatim>\<open>calloc\<close> gives \<open>tile_count\<close> zeroed tiles.
\<close>

definition existing_level_image ::
  "level_image_t \<Rightarrow> int \<Rightarrow> wsi_level_t \<Rightarrow> error + level_image_t" where
  "existing_level_image li0 wsi_level_index wsi_file_level =
     (let li1 = li0\<lparr>li_exists := True,
                      li_pyramid_image_index := wsi_level_index,
                      li_downsample_factor := wl_downsample_factor wsi_file_level,
                      li_tile_count := wl_tile_count wsi_file_level,
                      li_width_in_tiles := wl_width_in_tiles wsi_file_level\<rparr>
      in
      ASSERT (li_width_in_tiles li1 > 0) ''downsample_level_image->width_in_tiles > 0'' (
        let li2 = li1\<lparr>li_height_in_tiles := wl_height_in_tiles wsi_file_level,
                        li_tile_width := wl_tile_width wsi_file_level,
                        li_tile_height := wl_tile_height wsi_file_level,
                        li_um_per_pixel_x := wl_um_per_pixel_x wsi_file_level,
                        li_um_per_pixel_y := wl_um_per_pixel_y wsi_file_level,
                        li_x_tile_side_in_um := wl_x_tile_side_in_um wsi_file_level,
                        li_y_tile_side_in_um := wl_y_tile_side_in_um wsi_file_level\<rparr>
        in
        ASSERT (li_x_tile_side_in_um li2 > 0) ''downsample_level_image->x_tile_side_in_um > 0'' (
        ASSERT (li_y_tile_side_in_um li2 > 0) ''downsample_level_image->y_tile_side_in_um > 0'' (
          Inr (init_tiles
                 (li2\<lparr>li_tiles := replicate (nat (wl_tile_count wsi_file_level)) tile_zero\<rparr>)
                 0)))))"

text \<open>Lines 734 to 742: no native level has the wanted downsample level.\<close>

definition placeholder_level_image :: "image_t \<Rightarrow> int \<Rightarrow> level_image_t \<Rightarrow> level_image_t" where
  "placeholder_level_image img wanted_downsample_level li0 =
     (let li1 = li0\<lparr>li_exists := False,
                      li_downsample_factor := exp2f wanted_downsample_level,
                      li_tile_width := image_tile_width img,
                      li_tile_height := image_tile_height img\<rparr>;
          li2 = li1\<lparr>li_um_per_pixel_x := image_mpp_x img * li_downsample_factor li1,
                      li_um_per_pixel_y := image_mpp_y img * li_downsample_factor li1\<rparr>
      in li2\<lparr>li_x_tile_side_in_um :=
                  li_um_per_pixel_x li2 * of_int (wl_tile_width (wsi_levels (image_wsi img) ! 0)),
              li_y_tile_side_in_um :=
                  li_um_per_pixel_y li2 * of_int (wl_tile_height (wsi_levels (image_wsi img) ! 0))\<rparr>)"

text \<open>
  Lines 679 to 745: the loop over the logical levels. \<open>next_index\<close> is
  \<^verbatim>\<open>next_wsi_level_index_to_check_for_match\<close>.
\<close>

function load_level_images :: "int \<Rightarrow> int \<Rightarrow> image_t \<Rightarrow> error + image_t" where
  "load_level_images downsample_level next_index img =
     (if downsample_level < image_level_count img then
        (case find_wsi_level (image_wsi img) next_index downsample_level of
           Some wsi_level_index \<Rightarrow>
             (case existing_level_image
                     (image_level_images img ! nat downsample_level)
                     wsi_level_index
                     (wsi_levels (image_wsi img) ! nat wsi_level_index) of
                Inl e \<Rightarrow> Inl e
              | Inr li \<Rightarrow>
                  load_level_images (downsample_level + 1) (wsi_level_index + 1)
                    (img\<lparr>image_level_images :=
                       (image_level_images img)[nat downsample_level := li]\<rparr>))
         | None \<Rightarrow>
             load_level_images (downsample_level + 1) next_index
               (img\<lparr>image_level_images :=
                  (image_level_images img)
                    [nat downsample_level :=
                       placeholder_level_image img downsample_level
                         (image_level_images img ! nat downsample_level)]\<rparr>))
      else Inr img)"
  by pat_completeness auto
termination
  by (relation "measure (\<lambda>(d, n, img). nat (image_level_count img - d))") auto

declare load_level_images.simps [simp del]

text \<open>Lines 651 to 660: the image takes its geometry from the opened slide.\<close>

definition image_from_wsi :: "image_t \<Rightarrow> wsi_t \<Rightarrow> image_t" where
  "image_from_wsi img wsi =
     img\<lparr>image_is_freshly_loaded := True,
         image_mpp_x := wsi_mpp_x wsi,
         image_mpp_y := wsi_mpp_y wsi,
         image_is_mpp_known := wsi_is_mpp_known wsi,
         image_tile_width := wsi_tile_width wsi,
         image_tile_height := wsi_tile_height wsi,
         image_width_in_pixels := wsi_width wsi,
         image_width_in_um := of_int (wsi_width wsi) * wsi_mpp_x wsi,
         image_height_in_pixels := wsi_height wsi,
         image_height_in_um := of_int (wsi_height wsi) * wsi_mpp_y wsi\<rparr>"

text \<open>
  Lines 663 to 745: the level array is zeroed, the number of logical levels is fixed, the
  two \<^verbatim>\<open>panic\<close> checks are made and the levels are built.
\<close>

definition init_level_images :: "config \<Rightarrow> image_t \<Rightarrow> error + image_t" where
  "init_level_images cfg img =
     (ASSERT (wsi_max_downsample_level (image_wsi img) \<ge> 0)
        ''wsi->max_downsample_level >= 0'' (
        let img1 = img\<lparr>image_level_images :=
                          replicate (length (image_level_images img)) level_image_zero,
                        image_level_count := wsi_max_downsample_level (image_wsi img) + 1\<rparr>
        in
        if wsi_level_count (image_wsi img) > image_level_count img1 then panic
        else if image_level_count img1 > WSI_MAX_LEVELS cfg then panic
        else load_level_images 0 0 img1))"

text \<open>
  Lines 628 to 753: the file is none of the types handled before, so OpenSlide is tried.
  \<open>is_openslide_available\<close> is the flag once the library has finished loading;
  \<open>opened\<close> is the result of \<^verbatim>\<open>openslide_open\<close>. The other branches of the function
  call loaders that are not among the sources. The image starts zeroed
  (\<^verbatim>\<open>image_t image = {}\<close>); its name, directory and resource id are left out.
\<close>

definition load_image_from_file :: "config \<Rightarrow> bool \<Rightarrow> openslide_t option \<Rightarrow> error + image_t" where
  "load_image_from_file cfg is_openslide_available opened =
     (let img0 = image_zero cfg in
      if \<not> is_openslide_available then Inr (img0\<lparr>image_is_valid := False\<rparr>)
      else
        let img1 = img0\<lparr>image_type := IMAGE_TYPE_WSI,
                          image_backend := IMAGE_BACKEND_OPENSLIDE\<rparr> in
        case load_wsi cfg (image_wsi img1) opened of
          Inl e \<Rightarrow> Inl e
        | Inr wsi \<Rightarrow>
            let img2 = img1\<lparr>image_wsi := wsi\<rparr> in
            if wsi_osr wsi = None then Inr img2
            else
              let img3 = image_from_wsi img2 wsi in
              ASSERT (wl_x_tile_side_in_um (wsi_levels wsi ! 0) > 0)
                ''wsi->levels[0].x_tile_side_in_um > 0'' (
                case
                   (if wsi_level_count wsi > 0 \<and> wl_x_tile_side_in_um (wsi_levels wsi ! 0) > 0
                    then init_level_images cfg img3
                    else Inr img3) of
                   Inl e \<Rightarrow> Inl e
                 | Inr img4 \<Rightarrow>
                     ASSERT (image_level_count img4 > 0) ''image.level_count > 0'' (
                       Inr (img4\<lparr>image_is_valid := True\<rparr>))))"

subsection \<open>Work queues\<close>

type_synonym u8 = "8 word"

record viewer_notify_tile_completed_task_t =
  ct_resource_id :: int
  ct_pixel_memory :: "u8 list option"
  ct_tile_width :: int
  ct_tile_height :: int
  ct_scale :: int
  ct_tile_index :: int
  ct_want_gpu_residency :: bool

text \<open>
  The two functions of the file that have the signature of a work queue callback; a
  function pointer is one of them, or \<^verbatim>\<open>NULL\<close>.
\<close>

datatype work_queue_callback =
    Callback_viewer_upload_already_cached_tile_to_gpu
  | Callback_viewer_notify_load_tile_completed

record work_queue_entry_t =
  entry_callback :: work_queue_callback
  entry_userdata :: viewer_notify_tile_completed_task_t

record work_queue_t =
  queue_entries :: "work_queue_entry_t list"
  queue_capacity :: nat

text \<open>
  Modelled from the spec: \<^verbatim>\<open>add_work_queue_entry\<close>, whose file is not among the sources.
  The queue is bounded; \<open>enqueue\<close> answers \<open>accepted\<close> (\<open>True\<close>) and stores a copy of the
  job, or \<open>capacity_exceeded\<close> (\<open>False\<close>) and stores nothing.
\<close>

definition add_work_queue_entry ::
  "work_queue_t \<Rightarrow> work_queue_callback \<Rightarrow> viewer_notify_tile_completed_task_t
     \<Rightarrow> bool \<times> work_queue_t" where
  "add_work_queue_entry queue callback userdata =
     (if length (queue_entries queue) < queue_capacity queue
      then (True, queue\<lparr>queue_entries := queue_entries queue
                            @ [\<lparr>entry_callback = callback, entry_userdata = userdata\<rparr>]\<rparr>)
      else (False, queue))"

text \<open>
  The state a tile job acts on: the completion queue, and the number of pixel buffers
  that have been allocated and not freed.
\<close>

record viewer_state =
  global_completion_queue :: work_queue_t
  live_pixel_buffers :: int

definition viewer_upload_already_cached_tile_to_gpu ::
  "int \<Rightarrow> viewer_notify_tile_completed_task_t \<Rightarrow> viewer_state \<Rightarrow> viewer_state" where
  "viewer_upload_already_cached_tile_to_gpu logical_thread_index userdata st = st"

text \<open>Lines 29 to 32. The answer of \<^verbatim>\<open>add_work_queue_entry\<close> is not looked at.\<close>

definition viewer_notify_load_tile_completed ::
  "int \<Rightarrow> viewer_notify_tile_completed_task_t \<Rightarrow> viewer_state \<Rightarrow> viewer_state" where
  "viewer_notify_load_tile_completed logical_thread_index userdata st =
     st\<lparr>global_completion_queue :=
          snd (add_work_queue_entry (global_completion_queue st)
                 Callback_viewer_notify_load_tile_completed userdata)\<rparr>"

definition call_callback ::
  "work_queue_callback \<Rightarrow> int \<Rightarrow> viewer_notify_tile_completed_task_t
     \<Rightarrow> viewer_state \<Rightarrow> viewer_state" where
  "call_callback callback logical_thread_index userdata st =
     (case callback of
        Callback_viewer_upload_already_cached_tile_to_gpu \<Rightarrow>
          viewer_upload_already_cached_tile_to_gpu logical_thread_index userdata st
      | Callback_viewer_notify_load_tile_completed \<Rightarrow>
          viewer_notify_load_tile_completed logical_thread_index userdata st)"

subsection \<open>\<^verbatim>\<open>load_tile_func\<close>\<close>

record load_tile_task_t =
  task_resource_id :: int
  task_image :: image_t
  task_level :: int
  task_tile_x :: int
  task_tile_y :: int
  task_completion_callback :: "work_queue_callback option"

text \<open>
  The decoders, which are not among the sources. \<open>tiff_decode_tile\<close> takes the thread
  index, the index of the level's IFD, the tile index, the level and the tile
  coordinates; \<open>dicom_wsi_decode_tile_to_bgra\<close> the level and the tile index. Both return a
  newly allocated buffer, or \<^verbatim>\<open>NULL\<close>. \<open>openslide_read_region\<close> takes the destination
  buffer, x, y, the native level, the width and the height, and returns the buffer as it
  has written it; it reports nothing.
\<close>

record decoders =
  tiff_decode_tile :: "int \<Rightarrow> int \<Rightarrow> int \<Rightarrow> int \<Rightarrow> int \<Rightarrow> int \<Rightarrow> u8 list option"
  openslide_read_region :: "u8 list \<Rightarrow> int \<Rightarrow> int \<Rightarrow> int \<Rightarrow> int \<Rightarrow> int \<Rightarrow> u8 list"
  dicom_wsi_decode_tile_to_bgra :: "int \<Rightarrow> int \<Rightarrow> u8 list option"

text \<open>
  \<^verbatim>\<open>memset(mem + offset, c, n)\<close> on a buffer of known length. A write outside the
  buffer is undefined behaviour in C; a negative \<open>n\<close> becomes a huge \<^verbatim>\<open>size_t\<close>.
\<close>

definition memset :: "u8 list \<Rightarrow> int \<Rightarrow> u8 \<Rightarrow> int \<Rightarrow> error + u8 list" where
  "memset mem offset c n =
     (if 0 \<le> offset \<and> 0 \<le> n \<and> offset + n \<le> int (length mem)
      then Inr (take (nat offset) mem @ replicate (nat n) c @ drop (nat (offset + n)) mem)
      else Inl OutOfBounds)"

text \<open>Lines 86 to 89: the loop over the rows that are kept.\<close>

function clear_excess_columns ::
  "u8 list \<Rightarrow> int \<Rightarrow> int \<Rightarrow> int \<Rightarrow> int \<Rightarrow> int \<Rightarrow> error + u8 list" where
  "clear_excess_columns temp_memory row new_tile_height pitch new_tile_width excess_pixels =
     (if row < new_tile_height then
        (case memset temp_memory (row * pitch + new_tile_width * BYTES_PER_PIXEL) 0
                (excess_pixels * BYTES_PER_PIXEL) of
           Inl e \<Rightarrow> Inl e
         | Inr mem \<Rightarrow>
             clear_excess_columns mem (row + 1) new_tile_height pitch new_tile_width
               excess_pixels)
      else Inr temp_memory)"
  by pat_completeness auto
termination
  by (relation "measure (\<lambda>(m, row, h, p, w, e). nat (h - row))") auto

declare clear_excess_columns.simps [simp del]

text \<open>Lines 74 to 81: the rows beyond the bottom edge. The result is the new tile height
  and the buffer.\<close>

definition clear_excess_rows ::
  "level_image_t \<Rightarrow> real \<Rightarrow> u8 list \<Rightarrow> error + (int \<times> u8 list)" where
  "clear_excess_rows level_image tile_y_excess temp_memory =
     (let new_tile_height = li_tile_height level_image;
          pitch = li_tile_width level_image * BYTES_PER_PIXEL
      in
      if tile_y_excess > 0 then
        let excess_rows =
              float_to_int ((tile_y_excess / li_y_tile_side_in_um level_image)
                              * of_int (li_tile_height level_image))
        in
        ASSERT (excess_rows \<ge> 0) ''excess_rows >= 0'' (
          let new_tile_height = li_tile_height level_image - excess_rows in
          (case memset temp_memory (new_tile_height * pitch) 0 (excess_rows * pitch) of
             Inl e \<Rightarrow> Inl e
           | Inr mem \<Rightarrow> Inr (new_tile_height, mem)))
      else Inr (new_tile_height, temp_memory))"

text \<open>Lines 71 to 90: the tile is trimmed where it extends beyond the image.\<close>

definition trim_tile :: "level_image_t \<Rightarrow> real \<Rightarrow> real \<Rightarrow> u8 list \<Rightarrow> error + u8 list" where
  "trim_tile level_image tile_x_excess tile_y_excess temp_memory =
     (case clear_excess_rows level_image tile_y_excess temp_memory of
        Inl e \<Rightarrow> Inl e
      | Inr (new_tile_height, mem) \<Rightarrow>
          let pitch = li_tile_width level_image * BYTES_PER_PIXEL in
          if tile_x_excess > 0 then
            let excess_pixels =
                  float_to_int ((tile_x_excess / li_x_tile_side_in_um level_image)
                                  * of_int (li_tile_width level_image))
            in
            ASSERT (excess_pixels \<ge> 0) ''excess_pixels >= 0'' (
              let new_tile_width = li_tile_width level_image - excess_pixels in
              clear_excess_columns mem 0 new_tile_height pitch new_tile_width excess_pixels)
          else Inr mem)"

text \<open>
  Lines 58 to 115: the dispatch on the backend. The result is the flag \<^verbatim>\<open>failed\<close>, the
  buffer \<^verbatim>\<open>temp_memory\<close> points to, and the state. A decoder that returns a buffer has
  allocated it; the buffer allocated before is freed then.
\<close>

definition backend_decode ::
  "decoders \<Rightarrow> int \<Rightarrow> image_t \<Rightarrow> level_image_t \<Rightarrow> int \<Rightarrow> int \<Rightarrow> int \<Rightarrow> int
     \<Rightarrow> real \<Rightarrow> real \<Rightarrow> u8 list \<Rightarrow> viewer_state \<Rightarrow> error + (bool \<times> u8 list \<times> viewer_state)" where
  "backend_decode dec logical_thread_index img level_image level tile_index tile_x tile_y
       tile_x_excess tile_y_excess temp_memory st =
     (if image_backend img = IMAGE_BACKEND_TIFF then
        let (failed, mem, st') =
              (case tiff_decode_tile dec logical_thread_index
                      (li_pyramid_image_index level_image) tile_index level tile_x tile_y of
                 Some pixels \<Rightarrow>
                   (False, pixels, st\<lparr>live_pixel_buffers := live_pixel_buffers st + 1 - 1\<rparr>)
               | None \<Rightarrow> (True, temp_memory, st))
        in
        (case trim_tile level_image tile_x_excess tile_y_excess mem of
           Inl e \<Rightarrow> Inl e
         | Inr mem' \<Rightarrow> Inr (failed, mem', st'))
      else if image_backend img = IMAGE_BACKEND_OPENSLIDE then
        let wsi_file_level = li_pyramid_image_index level_image;
            x = (tile_x * li_tile_width level_image) * 2 ^ nat level;
            y = (tile_y * li_tile_height level_image) * 2 ^ nat level
        in
        Inr (False,
             openslide_read_region dec temp_memory x y wsi_file_level
               (li_tile_width level_image) (li_tile_height level_image),
             st)
      else if image_backend img = IMAGE_BACKEND_DICOM then
        (case dicom_wsi_decode_tile_to_bgra dec level tile_index of
           Some pixels \<Rightarrow>
             Inr (False, pixels, st\<lparr>live_pixel_buffers := live_pixel_buffers st + 1 - 1\<rparr>)
         | None \<Rightarrow> Inr (True, temp_memory, st))
      else if image_backend img = IMAGE_BACKEND_ISYNTAX then
        ASSERT False ''invalid code path'' (Inr (False, temp_memory, st))
      else if image_backend img = IMAGE_BACKEND_STBI then
        ASSERT False ''invalid code path'' (Inr (False, temp_memory, st))
      else Inr (True, temp_memory, st))"

text \<open>
  Lines 35 to 158, in the build without \<^verbatim>\<open>USE_MULTIPLE_OPENGL_CONTEXTS\<close> (the branch
  that sends a completion task). \<^verbatim>\<open>image->level_images + level\<close> outside the array is
  undefined behaviour in C; \<^verbatim>\<open>malloc\<close> is taken to succeed.
\<close>

definition load_tile_func ::
  "decoders \<Rightarrow> int \<Rightarrow> load_tile_task_t \<Rightarrow> viewer_state \<Rightarrow> error + viewer_state" where
  "load_tile_func dec logical_thread_index task st =
     (let level = task_level task;
          tile_x = task_tile_x task;
          tile_y = task_tile_y task;
          img = task_image task
      in
      if \<not> (0 \<le> level \<and> level < int (length (image_level_images img))) then Inl OutOfBounds
      else
        let level_image = image_level_images img ! nat level in
        ASSERT (li_exists level_image) ''level_image->exists'' (
          let tile_index = tile_y * li_width_in_tiles level_image + tile_x in
          ASSERT (li_x_tile_side_in_um level_image > 0 \<and> li_y_tile_side_in_um level_image > 0)
            ''level_image->x_tile_side_in_um > 0 && level_image->y_tile_side_in_um > 0'' (
            let tile_world_pos_x_end = of_int (tile_x + 1) * li_x_tile_side_in_um level_image;
                tile_world_pos_y_end = of_int (tile_y + 1) * li_y_tile_side_in_um level_image;
                tile_x_excess = tile_world_pos_x_end - image_width_in_um img;
                tile_y_excess = tile_world_pos_y_end - image_height_in_um img;
                pixel_memory_size =
                  li_tile_width level_image * li_tile_height level_image * BYTES_PER_PIXEL;
                temp_memory = replicate (nat pixel_memory_size) (0xFF :: u8);
                st1 = st\<lparr>live_pixel_buffers := live_pixel_buffers st + 1\<rparr>
            in
            ASSERT (image_type img = IMAGE_TYPE_WSI) ''image->type == IMAGE_TYPE_WSI'' (
              case backend_decode dec logical_thread_index img level_image level tile_index
                      tile_x tile_y tile_x_excess tile_y_excess temp_memory st1 of
                 Inl e \<Rightarrow> Inl e
               | Inr (failed, mem, st2) \<Rightarrow>
                   let (pixel_memory, st3) =
                         (if failed
                          then (None, st2\<lparr>live_pixel_buffers := live_pixel_buffers st2 - 1\<rparr>)
                          else (Some mem, st2));
                       completion_task =
                         \<lparr>ct_resource_id = task_resource_id task,
                          ct_pixel_memory = pixel_memory,
                          ct_tile_width = li_tile_width level_image,
                          ct_tile_height = li_tile_height level_image,
                          ct_scale = level,
                          ct_tile_index = tile_index,
                          ct_want_gpu_residency = True\<rparr>
                   in
                   ASSERT (task_completion_callback task \<noteq> None) ''task->completion_callback'' (
                     case task_completion_callback task of
                       None \<Rightarrow> Inr st3
                     | Some callback \<Rightarrow>
                         Inr (call_callback callback logical_thread_index completion_task
                                st3))))))"

section \<open>Notions used in the statements\<close>

subsection \<open>Native levels as \<^verbatim>\<open>load_wsi\<close> fills them\<close>

text \<open>
  \<open>native_level_ok cfg osr mpp_x mpp_y i lvl\<close>: the entry \<open>lvl\<close> of \<^verbatim>\<open>wsi->levels\<close> holds
  what the loop body at lines 236 to 259 stores for the native level \<open>i\<close> of the slide
  \<open>osr\<close>, the microns per pixel of the slide being \<open>mpp_x\<close> and \<open>mpp_y\<close>.
\<close>

definition native_level_ok ::
  "config \<Rightarrow> openslide_t \<Rightarrow> real \<Rightarrow> real \<Rightarrow> int \<Rightarrow> wsi_level_t \<Rightarrow> bool" where
  "native_level_ok cfg osr mpp_x mpp_y i lvl \<longleftrightarrow>
     wl_width lvl = fst (get_level_dimensions osr i) \<and>
     wl_height lvl = snd (get_level_dimensions osr i) \<and>
     0 < wl_width lvl \<and> 0 < wl_height lvl \<and>
     wl_width_in_tiles lvl =
       i32_cast (c_div (wl_width lvl) (WSI_TILE_DIM cfg))
         + (if c_mod (wl_width lvl) (WSI_TILE_DIM cfg) \<noteq> 0 then 1 else 0) \<and>
     wl_height_in_tiles lvl =
       i32_cast (c_div (wl_height lvl) (WSI_TILE_DIM cfg))
         + (if c_mod (wl_height lvl) (WSI_TILE_DIM cfg) \<noteq> 0 then 1 else 0) \<and>
     wl_tile_width lvl = WSI_TILE_DIM cfg \<and>
     wl_tile_height lvl = WSI_TILE_DIM cfg \<and>
     wl_tile_count lvl = wl_width_in_tiles lvl * wl_height_in_tiles lvl \<and>
     wl_downsample_level lvl = get_level_downsample_level osr i \<and>
     wl_downsample_factor lvl = exp2f (wl_downsample_level lvl) \<and>
     wl_um_per_pixel_x lvl = exp2f (wl_downsample_level lvl) * mpp_x \<and>
     wl_um_per_pixel_y lvl = exp2f (wl_downsample_level lvl) * mpp_y \<and>
     wl_x_tile_side_in_um lvl = wl_um_per_pixel_x lvl * of_int (WSI_TILE_DIM cfg) \<and>
     wl_y_tile_side_in_um lvl = wl_um_per_pixel_y lvl * of_int (WSI_TILE_DIM cfg)"

subsection \<open>The local variables of \<^verbatim>\<open>load_tile_func\<close>\<close>

text \<open>
  The values that \<^verbatim>\<open>load_tile_func\<close> computes from its task at lines 41 to 48, and the
  counts of rows and pixel columns it clears at lines 77 and 83 (0 when the tile does not
  extend beyond the edge), as functions of the task.
\<close>

definition task_level_image :: "load_tile_task_t \<Rightarrow> level_image_t" where
  "task_level_image task = image_level_images (task_image task) ! nat (task_level task)"

definition task_tile_index :: "load_tile_task_t \<Rightarrow> int" where
  "task_tile_index task =
     task_tile_y task * li_width_in_tiles (task_level_image task) + task_tile_x task"

definition task_tile_x_excess :: "load_tile_task_t \<Rightarrow> real" where
  "task_tile_x_excess task =
     of_int (task_tile_x task + 1) * li_x_tile_side_in_um (task_level_image task)
       - image_width_in_um (task_image task)"

definition task_tile_y_excess :: "load_tile_task_t \<Rightarrow> real" where
  "task_tile_y_excess task =
     of_int (task_tile_y task + 1) * li_y_tile_side_in_um (task_level_image task)
       - image_height_in_um (task_image task)"

definition excess_rows :: "level_image_t \<Rightarrow> real \<Rightarrow> int" where
  "excess_rows level_image tile_y_excess =
     (if tile_y_excess > 0
      then float_to_int ((tile_y_excess / li_y_tile_side_in_um level_image)
                           * of_int (li_tile_height level_image))
      else 0)"

definition excess_pixels :: "level_image_t \<Rightarrow> real \<Rightarrow> int" where
  "excess_pixels level_image tile_x_excess =
     (if tile_x_excess > 0
      then float_to_int ((tile_x_excess / li_x_tile_side_in_um level_image)
                           * of_int (li_tile_width level_image))
      else 0)"

text \<open>
  \<open>task_ready\<close>: the level index is inside the level array and the three assertions at
  lines 42, 44 and 59 hold. \<open>completion_of task pixel_memory\<close> is the completion task
  built at lines 140 to 147.
\<close>

definition task_ready :: "load_tile_task_t \<Rightarrow> bool" where
  "task_ready task \<longleftrightarrow>
     0 \<le> task_level task \<and>
     task_level task < int (length (image_level_images (task_image task))) \<and>
     li_exists (task_level_image task) \<and>
     0 < li_x_tile_side_in_um (task_level_image task) \<and>
     0 < li_y_tile_side_in_um (task_level_image task) \<and>
     image_type (task_image task) = IMAGE_TYPE_WSI"

definition completion_of :: "load_tile_task_t \<Rightarrow> u8 list option \<Rightarrow> viewer_notify_tile_completed_task_t" where
  "completion_of task pixel_memory =
     \<lparr>ct_resource_id = task_resource_id task,
      ct_pixel_memory = pixel_memory,
      ct_tile_width = li_tile_width (task_level_image task),
      ct_tile_height = li_tile_height (task_level_image task),
      ct_scale = task_level task,
      ct_tile_index = task_tile_index task,
      ct_want_gpu_residency = True\<rparr>"

subsection \<open>Example inputs\<close>

text \<open>
  A build with tiles of 4 by 4 pixels and at most 4 levels. \<open>example_slide\<close> is 10 by 6
  pixels with two native levels, of downsample levels 0 and 2, and a microns-per-pixel
  property for y only. \<open>example_flat_slide\<close> reports two native levels that both have
  downsample level 0.
\<close>

definition example_config :: config where
  "example_config = \<lparr>WSI_TILE_DIM = 4, WSI_MAX_LEVELS = 4\<rparr>"

definition example_slide :: openslide_t where
  "example_slide =
     \<lparr>get_error = False, get_level_count = 2, get_level0_dimensions = (10, 6),
      get_level_dimensions = (\<lambda>i. if i = 0 then (10, 6) else (3, 2)),
      get_level_downsample_level = (\<lambda>i. if i = 0 then 0 else 2),
      mpp_x_property = None, mpp_y_property = Some (1 / 4)\<rparr>"

definition example_flat_slide :: openslide_t where
  "example_flat_slide =
     \<lparr>get_error = False, get_level_count = 2, get_level0_dimensions = (10, 6),
      get_level_dimensions = (\<lambda>i. (10, 6)),
      get_level_downsample_level = (\<lambda>i. 0),
      mpp_x_property = None, mpp_y_property = None\<rparr>"

text \<open>
  An image of 3 by 4 pixels at 0.5 microns per pixel, with tiles of 2 by 2 pixels:
  level 0 (2 by 2 tiles), level 1 (half the resolution, one tile) and a placeholder as
  level 2. The tile at \<open>tile_x = 1\<close> of level 0 extends one pixel column beyond the right
  edge; the tile of level 1 extends half a pixel column beyond it.
\<close>

definition example_level_image :: level_image_t where
  "example_level_image =
     \<lparr>li_exists = True, li_pyramid_image_index = 0, li_downsample_factor = 1,
      li_tile_count = 4, li_width_in_tiles = 2, li_height_in_tiles = 2,
      li_tile_width = 2, li_tile_height = 2,
      li_um_per_pixel_x = 1 / 2, li_um_per_pixel_y = 1 / 2,
      li_x_tile_side_in_um = 1, li_y_tile_side_in_um = 1,
      li_tiles =
        [\<lparr>t_tile_index = 0, t_tile_x = 0, t_tile_y = 0\<rparr>,
         \<lparr>t_tile_index = 1, t_tile_x = 1, t_tile_y = 0\<rparr>,
         \<lparr>t_tile_index = 2, t_tile_x = 0, t_tile_y = 1\<rparr>,
         \<lparr>t_tile_index = 3, t_tile_x = 1, t_tile_y = 1\<rparr>]\<rparr>"

definition example_half_level_image :: level_image_t where
  "example_half_level_image =
     \<lparr>li_exists = True, li_pyramid_image_index = 1, li_downsample_factor = 2,
      li_tile_count = 1, li_width_in_tiles = 1, li_height_in_tiles = 1,
      li_tile_width = 2, li_tile_height = 2,
      li_um_per_pixel_x = 1, li_um_per_pixel_y = 1,
      li_x_tile_side_in_um = 2, li_y_tile_side_in_um = 2,
      li_tiles = [\<lparr>t_tile_index = 0, t_tile_x = 0, t_tile_y = 0\<rparr>]\<rparr>"

definition example_placeholder :: level_image_t where
  "example_placeholder =
     \<lparr>li_exists = False, li_pyramid_image_index = 0, li_downsample_factor = 4,
      li_tile_count = 0, li_width_in_tiles = 0, li_height_in_tiles = 0,
      li_tile_width = 2, li_tile_height = 2, li_um_per_pixel_x = 2, li_um_per_pixel_y = 2,
      li_x_tile_side_in_um = 4, li_y_tile_side_in_um = 4, li_tiles = []\<rparr>"

definition example_image :: "image_backend \<Rightarrow> image_t" where
  "example_image backend =
     \<lparr>image_type = IMAGE_TYPE_WSI, image_backend = backend,
      image_is_valid = True, image_is_freshly_loaded = True,
      image_mpp_x = 1 / 2, image_mpp_y = 1 / 2, image_is_mpp_known = True,
      image_tile_width = 2, image_tile_height = 2,
      image_width_in_pixels = 3, image_width_in_um = 3 / 2,
      image_height_in_pixels = 4, image_height_in_um = 2,
      image_level_count = 3,
      image_level_images =
        [example_level_image, example_half_level_image, example_placeholder],
      image_wsi = wsi_zero example_config\<rparr>"

definition example_task :: "image_backend \<Rightarrow> int \<Rightarrow> int \<Rightarrow> load_tile_task_t" where
  "example_task backend level tile_x =
     \<lparr>task_resource_id = 7, task_image = example_image backend,
      task_level = level, task_tile_x = tile_x, task_tile_y = 0,
      task_completion_callback = Some Callback_viewer_notify_load_tile_completed\<rparr>"

definition example_state :: viewer_state where
  "example_state =
     \<lparr>global_completion_queue = \<lparr>queue_entries = [], queue_capacity = 1024\<rparr>,
      live_pixel_buffers = 0\<rparr>"

text \<open>
  Decoders that return a buffer of 16 bytes \<open>0xAB\<close> (OpenSlide leaves the buffer as it
  is), and decoders that fail.
\<close>

definition example_decoders :: decoders where
  "example_decoders =
     \<lparr>tiff_decode_tile = (\<lambda>thread ifd tile_index level x y. Some (replicate 16 0xAB)),
      openslide_read_region = (\<lambda>mem x y level w h. mem),
      dicom_wsi_decode_tile_to_bgra = (\<lambda>level tile_index. Some (replicate 16 0xAB))\<rparr>"

definition failing_decoders :: decoders where
  "failing_decoders =
     \<lparr>tiff_decode_tile = (\<lambda>thread ifd tile_index level x y. None),
      openslide_read_region = (\<lambda>mem x y level w h. mem),
      dicom_wsi_decode_tile_to_bgra = (\<lambda>level tile_index. None)\<rparr>"

section \<open>Verification\<close>

lemma c_div_nonneg: "0 \<le> a \<Longrightarrow> 0 < b \<Longrightarrow> c_div a b = a div b"
  by (simp add: c_div_def)

lemma c_mod_nonneg: "0 \<le> a \<Longrightarrow> 0 < b \<Longrightarrow> c_mod a b = a mod b"
  by (simp add: c_mod_def c_div_nonneg minus_mult_div_eq_mod)


lemma exp2f_nonneg: "0 \<le> n \<Longrightarrow> exp2f n = 2 ^ nat n"
  by (simp add: exp2f_def)

lemma exp2f_pos: "0 < exp2f n"
  by (simp add: exp2f_def)


lemma load_wsi_level_Inr:
  assumes "load_wsi_level cfg osr wsi i = Inr wsi'" and "nat i < length (wsi_levels wsi)"
  shows "native_level_ok cfg osr (wsi_mpp_x wsi) (wsi_mpp_y wsi) i (wsi_levels wsi' ! nat i)"
    and "wsi' = wsi\<lparr>wsi_levels := (wsi_levels wsi)[nat i := wsi_levels wsi' ! nat i],
                      wsi_max_downsample_level :=
                        max (wl_downsample_level (wsi_levels wsi' ! nat i))
                          (wsi_max_downsample_level wsi)\<rparr>"
proof -
  obtain w h where wh: "get_level_dimensions osr i = (w, h)"
    by (cases "get_level_dimensions osr i")
  have w: "0 < w"
  proof (rule ccontr)
    assume "\<not> 0 < w"
    with assms(1) wh show False by (simp add: load_wsi_level_def)
  qed
  have h: "0 < h"
  proof (rule ccontr)
    assume "\<not> 0 < h"
    with assms(1) wh w show False by (simp add: load_wsi_level_def)
  qed
  from assms(1) wh w h have eq: "wsi' = wsi
     \<lparr>wsi_levels := (wsi_levels wsi)[nat i :=
          \<lparr>wl_width = w, wl_height = h,
           wl_width_in_tiles = i32_cast (c_div w (WSI_TILE_DIM cfg))
                               + (if c_mod w (WSI_TILE_DIM cfg) \<noteq> 0 then 1 else 0),
           wl_height_in_tiles = i32_cast (c_div h (WSI_TILE_DIM cfg))
                               + (if c_mod h (WSI_TILE_DIM cfg) \<noteq> 0 then 1 else 0),
           wl_tile_width = WSI_TILE_DIM cfg,
           wl_tile_height = WSI_TILE_DIM cfg,
           wl_tile_count =
             (i32_cast (c_div w (WSI_TILE_DIM cfg))
                + (if c_mod w (WSI_TILE_DIM cfg) \<noteq> 0 then 1 else 0))
             * (i32_cast (c_div h (WSI_TILE_DIM cfg))
                + (if c_mod h (WSI_TILE_DIM cfg) \<noteq> 0 then 1 else 0)),
           wl_um_per_pixel_x = exp2f (get_level_downsample_level osr i) * wsi_mpp_x wsi,
           wl_um_per_pixel_y = exp2f (get_level_downsample_level osr i) * wsi_mpp_y wsi,
           wl_x_tile_side_in_um =
             exp2f (get_level_downsample_level osr i) * wsi_mpp_x wsi
               * of_int (WSI_TILE_DIM cfg),
           wl_y_tile_side_in_um =
             exp2f (get_level_downsample_level osr i) * wsi_mpp_y wsi
               * of_int (WSI_TILE_DIM cfg),
           wl_downsample_level = get_level_downsample_level osr i,
           wl_downsample_factor = exp2f (get_level_downsample_level osr i)\<rparr>],
       wsi_max_downsample_level :=
         max (get_level_downsample_level osr i) (wsi_max_downsample_level wsi)\<rparr>"
    by (simp add: load_wsi_level_def Let_def)
  show "native_level_ok cfg osr (wsi_mpp_x wsi) (wsi_mpp_y wsi) i (wsi_levels wsi' ! nat i)"
    using assms(2) w h by (simp add: eq native_level_ok_def wh)
  show "wsi' = wsi\<lparr>wsi_levels := (wsi_levels wsi)[nat i := wsi_levels wsi' ! nat i],
                      wsi_max_downsample_level :=
                        max (wl_downsample_level (wsi_levels wsi' ! nat i))
                          (wsi_max_downsample_level wsi)\<rparr>"
    using assms(2) by (simp add: eq)
qed

lemma load_wsi_levels_inv:
  "load_wsi_levels cfg osr i wsi = Inr wsi' \<Longrightarrow> 0 \<le> i \<Longrightarrow>
   wsi_level_count wsi \<le> int (length (wsi_levels wsi)) \<Longrightarrow>
     wsi' = wsi\<lparr>wsi_levels := wsi_levels wsi',
                wsi_max_downsample_level := wsi_max_downsample_level wsi'\<rparr> \<and>
     length (wsi_levels wsi') = length (wsi_levels wsi) \<and>
     wsi_max_downsample_level wsi \<le> wsi_max_downsample_level wsi' \<and>
     (\<forall>j. 0 \<le> j \<and> j < i \<longrightarrow> wsi_levels wsi' ! nat j = wsi_levels wsi ! nat j) \<and>
     (\<forall>j. i \<le> j \<and> j < wsi_level_count wsi \<longrightarrow>
        native_level_ok cfg osr (wsi_mpp_x wsi) (wsi_mpp_y wsi) j (wsi_levels wsi' ! nat j) \<and>
        wl_downsample_level (wsi_levels wsi' ! nat j) \<le> wsi_max_downsample_level wsi')"
proof (induction cfg osr i wsi rule: load_wsi_levels.induct)
  case (1 cfg osr i wsi)
  show ?case
  proof (cases "i < wsi_level_count wsi")
    case False
    with "1.prems" have "wsi' = wsi" by (simp add: load_wsi_levels.simps)
    with False show ?thesis by auto
  next
    case True
    from "1.prems"(1) True obtain wsi1 where
      step: "load_wsi_level cfg osr wsi i = Inr wsi1" and
      rest: "load_wsi_levels cfg osr (i + 1) wsi1 = Inr wsi'"
      by (auto simp: load_wsi_levels.simps [of cfg osr i wsi] split: sum.splits)
    have in_range: "nat i < length (wsi_levels wsi)"
      using True "1.prems"(2,3) by linarith
    define lvl where "lvl = wsi_levels wsi1 ! nat i"
    from load_wsi_level_Inr [OF step in_range] have
      ok: "native_level_ok cfg osr (wsi_mpp_x wsi) (wsi_mpp_y wsi) i lvl" and
      w1: "wsi1 = wsi\<lparr>wsi_levels := (wsi_levels wsi)[nat i := lvl],
                      wsi_max_downsample_level :=
                        max (wl_downsample_level lvl) (wsi_max_downsample_level wsi)\<rparr>"
      unfolding lvl_def by blast+
    have len1: "wsi_level_count wsi1 \<le> int (length (wsi_levels wsi1))"
      using "1.prems"(3) by (simp add: w1)
    have i0: "0 \<le> i + 1" using "1.prems"(2) by simp
    note IH = "1.IH" [OF True step rest i0 len1]
    have at_i: "wsi_levels wsi' ! nat i = lvl"
    proof -
      have "wsi_levels wsi' ! nat i = wsi_levels wsi1 ! nat i"
        using IH "1.prems"(2) by simp
      also have "\<dots> = lvl"
        using True "1.prems"(2,3) by (simp add: w1)
      finally show ?thesis .
    qed
    have frame: "wsi' = wsi\<lparr>wsi_levels := wsi_levels wsi',
                wsi_max_downsample_level := wsi_max_downsample_level wsi'\<rparr>"
    proof -
      from IH have "wsi' = wsi1\<lparr>wsi_levels := wsi_levels wsi',
                wsi_max_downsample_level := wsi_max_downsample_level wsi'\<rparr>" by blast
      then show ?thesis by (simp add: w1)
    qed
    have len: "length (wsi_levels wsi') = length (wsi_levels wsi)"
      using IH by (simp add: w1)
    have mx: "wsi_max_downsample_level wsi \<le> wsi_max_downsample_level wsi'"
      and mx_lvl: "wl_downsample_level lvl \<le> wsi_max_downsample_level wsi'"
      using IH by (simp_all add: w1)
    have before: "\<forall>j. 0 \<le> j \<and> j < i \<longrightarrow> wsi_levels wsi' ! nat j = wsi_levels wsi ! nat j"
    proof (intro allI impI)
      fix j assume j: "0 \<le> j \<and> j < i"
      then have "wsi_levels wsi' ! nat j = wsi_levels wsi1 ! nat j" using IH by simp
      also have "\<dots> = wsi_levels wsi ! nat j"
      proof -
        from j have "nat i \<noteq> nat j" by linarith
        then show ?thesis by (simp add: w1)
      qed
      finally show "wsi_levels wsi' ! nat j = wsi_levels wsi ! nat j" .
    qed
    have after: "\<forall>j. i \<le> j \<and> j < wsi_level_count wsi \<longrightarrow>
        native_level_ok cfg osr (wsi_mpp_x wsi) (wsi_mpp_y wsi) j (wsi_levels wsi' ! nat j) \<and>
        wl_downsample_level (wsi_levels wsi' ! nat j) \<le> wsi_max_downsample_level wsi'"
    proof (intro allI impI)
      fix j assume j: "i \<le> j \<and> j < wsi_level_count wsi"
      show "native_level_ok cfg osr (wsi_mpp_x wsi) (wsi_mpp_y wsi) j (wsi_levels wsi' ! nat j) \<and>
        wl_downsample_level (wsi_levels wsi' ! nat j) \<le> wsi_max_downsample_level wsi'"
      proof (cases "j = i")
        case True
        then show ?thesis using at_i ok mx_lvl by simp
      next
        case False
        with j have "i + 1 \<le> j \<and> j < wsi_level_count wsi1" by (simp add: w1)
        with IH show ?thesis by (simp add: w1)
      qed
    qed
    from frame len mx before after show ?thesis by blast
  qed
qed

lemma load_wsi_mpp_eq:
  "load_wsi_mpp osr wsi =
     wsi\<lparr>wsi_mpp_x := (case mpp_x_property osr of None \<Rightarrow> 1 | Some v \<Rightarrow> if 0 < v then v else 1),
         wsi_mpp_y := (case mpp_y_property osr of None \<Rightarrow> 1 | Some v \<Rightarrow> if 0 < v then v else 1),
         wsi_is_mpp_known :=
           ((case mpp_x_property osr of None \<Rightarrow> False | Some v \<Rightarrow> 0 < v) \<or>
            (case mpp_y_property osr of None \<Rightarrow> False | Some v \<Rightarrow> 0 < v))\<rparr>"
  by (simp add: load_wsi_mpp_def Let_def split: option.splits)

lemma load_wsi_opened:
  assumes "load_wsi cfg wsi0 opened = Inr wsi" and "wsi_osr wsi \<noteq> None"
    and "length (wsi_levels wsi0) = nat (WSI_MAX_LEVELS cfg)"
  shows "\<exists>osr. opened = Some osr \<and> wsi_osr wsi = Some osr \<and> \<not> get_error osr \<and>
           wsi_level_count wsi = get_level_count osr \<and>
           wsi_level_count wsi \<le> WSI_MAX_LEVELS cfg \<and>
           wsi_width wsi = fst (get_level0_dimensions osr) \<and>
           wsi_height wsi = snd (get_level0_dimensions osr) \<and>
           0 < wsi_width wsi \<and> 0 < wsi_height wsi \<and>
           wsi_tile_width wsi = WSI_TILE_DIM cfg \<and>
           wsi_tile_height wsi = WSI_TILE_DIM cfg \<and>
           wsi_mpp_x wsi =
             (case mpp_x_property osr of None \<Rightarrow> 1 | Some v \<Rightarrow> if 0 < v then v else 1) \<and>
           wsi_mpp_y wsi =
             (case mpp_y_property osr of None \<Rightarrow> 1 | Some v \<Rightarrow> if 0 < v then v else 1) \<and>
           wsi_is_mpp_known wsi =
             ((case mpp_x_property osr of None \<Rightarrow> False | Some v \<Rightarrow> 0 < v) \<or>
              (case mpp_y_property osr of None \<Rightarrow> False | Some v \<Rightarrow> 0 < v)) \<and>
           length (wsi_levels wsi) = nat (WSI_MAX_LEVELS cfg) \<and>
           wsi_max_downsample_level wsi0 \<le> wsi_max_downsample_level wsi \<and>
           (\<forall>j. 0 \<le> j \<and> j < wsi_level_count wsi \<longrightarrow>
              native_level_ok cfg osr (wsi_mpp_x wsi) (wsi_mpp_y wsi) j (wsi_levels wsi ! nat j) \<and>
              wl_downsample_level (wsi_levels wsi ! nat j) \<le> wsi_max_downsample_level wsi)"
proof -
  from assms(1,2) obtain osr where op: "opened = Some osr"
    by (cases opened) (auto simp: load_wsi_def unload_wsi_def Let_def)
  have ne: "\<not> get_error osr"
    using assms(1,2) op by (auto simp: load_wsi_def unload_wsi_def Let_def)
  have cnt: "get_level_count osr \<noteq> - 1"
    using assms(1,2) op ne by (auto simp: load_wsi_def unload_wsi_def Let_def)
  have mx: "\<not> get_level_count osr > WSI_MAX_LEVELS cfg"
    using assms(1) op ne cnt by (auto simp: load_wsi_def unload_wsi_def Let_def)
  obtain w h where wh: "get_level0_dimensions osr = (w, h)"
    by (cases "get_level0_dimensions osr")
  have w: "0 < w"
    using assms(1) op ne cnt mx wh by (auto simp: load_wsi_def unload_wsi_def Let_def split: if_splits)
  have h: "0 < h"
    using assms(1) op ne cnt mx wh w
    by (auto simp: load_wsi_def unload_wsi_def Let_def split: if_splits)
  define wsi5 where "wsi5 = load_wsi_mpp osr
      (wsi0\<lparr>wsi_osr := Some osr, wsi_level_count := get_level_count osr,
            wsi_width := w, wsi_height := h,
            wsi_tile_width := WSI_TILE_DIM cfg, wsi_tile_height := WSI_TILE_DIM cfg\<rparr>)"
  have run: "load_wsi_levels cfg osr 0 wsi5 = Inr wsi"
    using assms(1) op ne cnt mx wh w h
    by (simp add: load_wsi_def unload_wsi_def Let_def wsi5_def)
  have len5: "wsi_level_count wsi5 \<le> int (length (wsi_levels wsi5))"
    using mx assms(3) by (simp add: wsi5_def load_wsi_mpp_eq)
  note inv = load_wsi_levels_inv [OF run order_refl len5]
  from inv have frame: "wsi = wsi5\<lparr>wsi_levels := wsi_levels wsi,
                wsi_max_downsample_level := wsi_max_downsample_level wsi\<rparr>" by blast
  have fields: "wsi_osr wsi = Some osr" "wsi_level_count wsi = get_level_count osr"
    "wsi_width wsi = w" "wsi_height wsi = h"
    "wsi_tile_width wsi = WSI_TILE_DIM cfg" "wsi_tile_height wsi = WSI_TILE_DIM cfg"
    "wsi_mpp_x wsi = (case mpp_x_property osr of None \<Rightarrow> 1 | Some v \<Rightarrow> if 0 < v then v else 1)"
    "wsi_mpp_y wsi = (case mpp_y_property osr of None \<Rightarrow> 1 | Some v \<Rightarrow> if 0 < v then v else 1)"
    "wsi_is_mpp_known wsi =
             ((case mpp_x_property osr of None \<Rightarrow> False | Some v \<Rightarrow> 0 < v) \<or>
              (case mpp_y_property osr of None \<Rightarrow> False | Some v \<Rightarrow> 0 < v))"
    by (subst frame, simp add: wsi5_def load_wsi_mpp_eq)+
  have same: "wsi_level_count wsi5 = wsi_level_count wsi" "wsi_mpp_x wsi5 = wsi_mpp_x wsi"
    "wsi_mpp_y wsi5 = wsi_mpp_y wsi"
    using arg_cong [OF frame, of wsi_level_count] arg_cong [OF frame, of wsi_mpp_x]
      arg_cong [OF frame, of wsi_mpp_y]
    by simp_all
  have len: "length (wsi_levels wsi) = nat (WSI_MAX_LEVELS cfg)"
    using inv assms(3) by (simp add: wsi5_def load_wsi_mpp_eq)
  have mx0: "wsi_max_downsample_level wsi0 \<le> wsi_max_downsample_level wsi"
    using inv by (simp add: wsi5_def load_wsi_mpp_eq)
  have lv: "\<forall>j. 0 \<le> j \<and> j < wsi_level_count wsi \<longrightarrow>
              native_level_ok cfg osr (wsi_mpp_x wsi) (wsi_mpp_y wsi) j (wsi_levels wsi ! nat j) \<and>
              wl_downsample_level (wsi_levels wsi ! nat j) \<le> wsi_max_downsample_level wsi"
    using inv unfolding same by blast
  show ?thesis
    using op ne mx fields wh w h len mx0 lv by (intro exI [of _ osr]) simp
qed

lemma find_wsi_level_Some:
  "find_wsi_level wsi n wanted = Some idx \<Longrightarrow>
     n \<le> idx \<and> idx < wsi_level_count wsi \<and>
     wl_downsample_level (wsi_levels wsi ! nat idx) = wanted"
proof (induction wsi n wanted rule: find_wsi_level.induct)
  case (1 wsi n wanted)
  show ?case
  proof (cases "n < wsi_level_count wsi")
    case False
    with "1.prems" show ?thesis by (simp add: find_wsi_level.simps)
  next
    case True
    show ?thesis
    proof (cases "wl_downsample_level (wsi_levels wsi ! nat n) = wanted")
      case match: True
      with True "1.prems" have "idx = n" by (simp add: find_wsi_level.simps [of wsi n])
      with True match show ?thesis by simp
    next
      case nomatch: False
      with True "1.prems" have "find_wsi_level wsi (n + 1) wanted = Some idx"
        by (simp add: find_wsi_level.simps [of wsi n])
      from "1.IH" [OF True nomatch this] show ?thesis by simp
    qed
  qed
qed

lemma find_wsi_level_None:
  "find_wsi_level wsi n wanted = None \<Longrightarrow> n \<le> j \<Longrightarrow> j < wsi_level_count wsi \<Longrightarrow>
     wl_downsample_level (wsi_levels wsi ! nat j) \<noteq> wanted"
proof (induction wsi n wanted rule: find_wsi_level.induct)
  case (1 wsi n wanted)
  from "1.prems" have lt: "n < wsi_level_count wsi" by simp
  from "1.prems"(1) lt have nomatch: "wl_downsample_level (wsi_levels wsi ! nat n) \<noteq> wanted"
    by (auto simp: find_wsi_level.simps [of wsi n] split: if_splits)
  with "1.prems"(1) lt have rest: "find_wsi_level wsi (n + 1) wanted = None"
    by (simp add: find_wsi_level.simps [of wsi n])
  show ?case
  proof (cases "j = n")
    case True
    with nomatch show ?thesis by simp
  next
    case False
    with "1.prems" have "n + 1 \<le> j" by simp
    from "1.IH" [OF lt nomatch rest this "1.prems"(3)] show ?thesis .
  qed
qed

lemma init_tiles_inv:
  "0 \<le> i \<Longrightarrow> length (li_tiles li) = nat (li_tile_count li) \<Longrightarrow>
     init_tiles li i = li\<lparr>li_tiles := li_tiles (init_tiles li i)\<rparr> \<and>
     length (li_tiles (init_tiles li i)) = length (li_tiles li) \<and>
     (\<forall>j. 0 \<le> j \<and> j < i \<longrightarrow> li_tiles (init_tiles li i) ! nat j = li_tiles li ! nat j) \<and>
     (\<forall>j. i \<le> j \<and> j < li_tile_count li \<longrightarrow>
        li_tiles (init_tiles li i) ! nat j =
          (li_tiles li ! nat j)\<lparr>t_tile_index := j,
                                 t_tile_x := c_mod j (li_width_in_tiles li),
                                 t_tile_y := c_div j (li_width_in_tiles li)\<rparr>)"
proof (induction li i rule: init_tiles.induct)
  case (1 li i)
  show ?case
  proof (cases "i < li_tile_count li")
    case False
    then have "init_tiles li i = li" by (simp add: init_tiles.simps)
    with False show ?thesis by auto
  next
    case True
    define li1 where "li1 = li\<lparr>li_tiles := (li_tiles li)
                [nat i := (li_tiles li ! nat i)
                   \<lparr>t_tile_index := i,
                    t_tile_x := c_mod i (li_width_in_tiles li),
                    t_tile_y := c_div i (li_width_in_tiles li)\<rparr>]\<rparr>"
    have unfold: "init_tiles li i = init_tiles li1 (i + 1)"
      using True by (simp add: init_tiles.simps [of li i] li1_def)
    have i1: "0 \<le> i + 1" using "1.prems"(1) by simp
    have len1: "length (li_tiles li1) = nat (li_tile_count li1)"
      using "1.prems"(2) by (simp add: li1_def)
    note IH = "1.IH" [OF True, folded li1_def, OF i1 len1]
    have in_range: "nat i < length (li_tiles li)"
      using True "1.prems" by linarith
    have frame: "init_tiles li i = li\<lparr>li_tiles := li_tiles (init_tiles li i)\<rparr>"
    proof -
      from IH have "init_tiles li1 (i + 1) = li1\<lparr>li_tiles := li_tiles (init_tiles li1 (i + 1))\<rparr>"
        by blast
      then show ?thesis unfolding unfold by (simp add: li1_def)
    qed
    have len: "length (li_tiles (init_tiles li i)) = length (li_tiles li)"
      using IH unfolding unfold by (simp add: li1_def)
    have before: "\<forall>j. 0 \<le> j \<and> j < i \<longrightarrow>
        li_tiles (init_tiles li i) ! nat j = li_tiles li ! nat j"
    proof (intro allI impI)
      fix j assume j: "0 \<le> j \<and> j < i"
      then have "nat i \<noteq> nat j" by linarith
      moreover from j IH have "li_tiles (init_tiles li1 (i + 1)) ! nat j = li_tiles li1 ! nat j"
        by simp
      ultimately show "li_tiles (init_tiles li i) ! nat j = li_tiles li ! nat j"
        unfolding unfold by (simp add: li1_def)
    qed
    have after: "\<forall>j. i \<le> j \<and> j < li_tile_count li \<longrightarrow>
        li_tiles (init_tiles li i) ! nat j =
          (li_tiles li ! nat j)\<lparr>t_tile_index := j,
                                 t_tile_x := c_mod j (li_width_in_tiles li),
                                 t_tile_y := c_div j (li_width_in_tiles li)\<rparr>"
    proof (intro allI impI)
      fix j assume j: "i \<le> j \<and> j < li_tile_count li"
      show "li_tiles (init_tiles li i) ! nat j =
          (li_tiles li ! nat j)\<lparr>t_tile_index := j,
                                 t_tile_x := c_mod j (li_width_in_tiles li),
                                 t_tile_y := c_div j (li_width_in_tiles li)\<rparr>"
      proof (cases "j = i")
        case True
        from IH "1.prems"(1) have "li_tiles (init_tiles li1 (i + 1)) ! nat i = li_tiles li1 ! nat i"
          by simp
        with True in_range show ?thesis unfolding unfold by (simp add: li1_def)
      next
        case False
        with j have j1: "i + 1 \<le> j \<and> j < li_tile_count li1" by (simp add: li1_def)
        from False j "1.prems"(1) have "nat i \<noteq> nat j" by linarith
        with IH j1 show ?thesis unfolding unfold by (simp add: li1_def)
      qed
    qed
    from frame len before after show ?thesis by blast
  qed
qed

lemma existing_level_image_Inr:
  assumes "existing_level_image li0 idx nl = Inr li"
  shows "li_exists li" and "li_pyramid_image_index li = idx"
    and "li_downsample_factor li = wl_downsample_factor nl"
    and "li_tile_count li = wl_tile_count nl"
    and "li_width_in_tiles li = wl_width_in_tiles nl"
    and "li_height_in_tiles li = wl_height_in_tiles nl"
    and "li_tile_width li = wl_tile_width nl"
    and "li_tile_height li = wl_tile_height nl"
    and "li_um_per_pixel_x li = wl_um_per_pixel_x nl"
    and "li_um_per_pixel_y li = wl_um_per_pixel_y nl"
    and "li_x_tile_side_in_um li = wl_x_tile_side_in_um nl"
    and "li_y_tile_side_in_um li = wl_y_tile_side_in_um nl"
    and "0 < li_width_in_tiles li"
    and "0 < li_x_tile_side_in_um li" and "0 < li_y_tile_side_in_um li"
    and "length (li_tiles li) = nat (li_tile_count li)"
    and "\<forall>j. 0 \<le> j \<and> j < li_tile_count li \<longrightarrow>
           li_tiles li ! nat j =
             \<lparr>t_tile_index = j, t_tile_x = c_mod j (li_width_in_tiles li),
              t_tile_y = c_div j (li_width_in_tiles li)\<rparr>"
proof -
  define li2 where "li2 = li0\<lparr>li_exists := True,
                      li_pyramid_image_index := idx,
                      li_downsample_factor := wl_downsample_factor nl,
                      li_tile_count := wl_tile_count nl,
                      li_width_in_tiles := wl_width_in_tiles nl,
                      li_height_in_tiles := wl_height_in_tiles nl,
                        li_tile_width := wl_tile_width nl,
                        li_tile_height := wl_tile_height nl,
                        li_um_per_pixel_x := wl_um_per_pixel_x nl,
                        li_um_per_pixel_y := wl_um_per_pixel_y nl,
                        li_x_tile_side_in_um := wl_x_tile_side_in_um nl,
                        li_y_tile_side_in_um := wl_y_tile_side_in_um nl,
                        li_tiles := replicate (nat (wl_tile_count nl)) tile_zero\<rparr>"
  have w: "0 < wl_width_in_tiles nl"
  proof (rule ccontr)
    assume "\<not> 0 < wl_width_in_tiles nl"
    with assms show False by (simp add: existing_level_image_def)
  qed
  have x: "0 < wl_x_tile_side_in_um nl"
  proof (rule ccontr)
    assume "\<not> 0 < wl_x_tile_side_in_um nl"
    with assms w show False by (simp add: existing_level_image_def)
  qed
  have y: "0 < wl_y_tile_side_in_um nl"
  proof (rule ccontr)
    assume "\<not> 0 < wl_y_tile_side_in_um nl"
    with assms w x show False by (simp add: existing_level_image_def)
  qed
  from assms w x y have eq: "li = init_tiles li2 0"
    by (simp add: existing_level_image_def li2_def)
  have len2: "length (li_tiles li2) = nat (li_tile_count li2)" by (simp add: li2_def)
  note inv = init_tiles_inv [OF order_refl len2, folded eq]
  from inv have frame: "li = li2\<lparr>li_tiles := li_tiles li\<rparr>" by blast
  show "li_exists li" by (subst frame) (simp add: li2_def)
  show "li_pyramid_image_index li = idx" by (subst frame) (simp add: li2_def)
  show "li_downsample_factor li = wl_downsample_factor nl" by (subst frame) (simp add: li2_def)
  show tc: "li_tile_count li = wl_tile_count nl" by (subst frame) (simp add: li2_def)
  show wt: "li_width_in_tiles li = wl_width_in_tiles nl" by (subst frame) (simp add: li2_def)
  show "li_height_in_tiles li = wl_height_in_tiles nl" by (subst frame) (simp add: li2_def)
  show "li_tile_width li = wl_tile_width nl" by (subst frame) (simp add: li2_def)
  show "li_tile_height li = wl_tile_height nl" by (subst frame) (simp add: li2_def)
  show "li_um_per_pixel_x li = wl_um_per_pixel_x nl" by (subst frame) (simp add: li2_def)
  show "li_um_per_pixel_y li = wl_um_per_pixel_y nl" by (subst frame) (simp add: li2_def)
  show xs: "li_x_tile_side_in_um li = wl_x_tile_side_in_um nl" by (subst frame) (simp add: li2_def)
  show ys: "li_y_tile_side_in_um li = wl_y_tile_side_in_um nl" by (subst frame) (simp add: li2_def)
  show "0 < li_width_in_tiles li" using w wt by simp
  show "0 < li_x_tile_side_in_um li" using x xs by simp
  show "0 < li_y_tile_side_in_um li" using y ys by simp
  show "length (li_tiles li) = nat (li_tile_count li)"
    using inv tc by (simp add: li2_def)
  show "\<forall>j. 0 \<le> j \<and> j < li_tile_count li \<longrightarrow>
           li_tiles li ! nat j =
             \<lparr>t_tile_index = j, t_tile_x = c_mod j (li_width_in_tiles li),
              t_tile_y = c_div j (li_width_in_tiles li)\<rparr>"
  proof (intro allI impI)
    fix j assume j: "0 \<le> j \<and> j < li_tile_count li"
    with tc have j2: "0 \<le> j \<and> j < li_tile_count li2" by (simp add: li2_def)
    with inv have "li_tiles li ! nat j =
          (li_tiles li2 ! nat j)\<lparr>t_tile_index := j,
                                 t_tile_x := c_mod j (li_width_in_tiles li2),
                                 t_tile_y := c_div j (li_width_in_tiles li2)\<rparr>" by blast
    moreover have "li_tiles li2 ! nat j = tile_zero"
      using j2 by (simp add: li2_def)
    moreover have "li_width_in_tiles li2 = li_width_in_tiles li"
      using wt by (simp add: li2_def)
    ultimately show "li_tiles li ! nat j =
             \<lparr>t_tile_index = j, t_tile_x = c_mod j (li_width_in_tiles li),
              t_tile_y = c_div j (li_width_in_tiles li)\<rparr>"
      by (simp add: tile_zero_def)
  qed
qed

lemma placeholder_not_exists [simp]: "\<not> li_exists (placeholder_level_image img L li0)"
  by (simp add: placeholder_level_image_def Let_def)

lemma placeholder_frame [simp]:
  "placeholder_level_image (img\<lparr>image_level_images := x\<rparr>) L li0 =
   placeholder_level_image img L li0"
  by (simp add: placeholder_level_image_def Let_def)

lemma load_level_images_inv:
  "load_level_images d n img = Inr img' \<Longrightarrow> 0 \<le> d \<Longrightarrow>
   image_level_count img \<le> int (length (image_level_images img)) \<Longrightarrow>
     img' = img\<lparr>image_level_images := image_level_images img'\<rparr> \<and>
     length (image_level_images img') = length (image_level_images img) \<and>
     (\<forall>L. 0 \<le> L \<and> L < d \<longrightarrow>
        image_level_images img' ! nat L = image_level_images img ! nat L) \<and>
     (\<forall>L. d \<le> L \<and> L < image_level_count img \<longrightarrow>
        image_level_images img' ! nat L =
          placeholder_level_image img L (image_level_images img ! nat L) \<or>
        (\<exists>idx. n \<le> idx \<and> idx < wsi_level_count (image_wsi img) \<and>
           wl_downsample_level (wsi_levels (image_wsi img) ! nat idx) = L \<and>
           existing_level_image (image_level_images img ! nat L) idx
             (wsi_levels (image_wsi img) ! nat idx) = Inr (image_level_images img' ! nat L))) \<and>
     (\<forall>L1 L2. d \<le> L1 \<and> L1 < L2 \<and> L2 < image_level_count img \<and>
        li_exists (image_level_images img' ! nat L1) \<and>
        li_exists (image_level_images img' ! nat L2) \<longrightarrow>
        li_pyramid_image_index (image_level_images img' ! nat L1)
          < li_pyramid_image_index (image_level_images img' ! nat L2))"
proof (induction d n img rule: load_level_images.induct)
  case (1 d n img)
  let ?lis = "image_level_images img"
  let ?lis' = "image_level_images img'"
  let ?wsi = "image_wsi img"
  show ?case
  proof (cases "d < image_level_count img")
    case False
    with "1.prems" have "img' = img" by (simp add: load_level_images.simps)
    with False show ?thesis by auto
  next
    case True
    have d_range: "nat d < length ?lis" using True "1.prems"(2,3) by linarith
    have d1: "0 \<le> d + 1" using "1.prems"(2) by simp
    show ?thesis
    proof (cases "find_wsi_level ?wsi n d")
      case None
      define img1 where "img1 = img\<lparr>image_level_images :=
          ?lis[nat d := placeholder_level_image img d (?lis ! nat d)]\<rparr>"
      have rest: "load_level_images (d + 1) n img1 = Inr img'"
        using "1.prems"(1) True None
        by (simp add: load_level_images.simps [of d n img] img1_def)
      have len1: "image_level_count img1 \<le> int (length (image_level_images img1))"
        using "1.prems"(3) by (simp add: img1_def)
      note IH = "1.IH"(1) [OF True None, folded img1_def, OF rest d1 len1]
      have at_d: "?lis' ! nat d = placeholder_level_image img d (?lis ! nat d)"
      proof -
        from IH "1.prems"(2) have "?lis' ! nat d = image_level_images img1 ! nat d" by simp
        then show ?thesis using d_range by (simp add: img1_def)
      qed
      have other: "image_level_images img1 ! nat L = ?lis ! nat L" if "0 \<le> L" "L \<noteq> d" for L
      proof -
        from that "1.prems"(2) have "nat d \<noteq> nat L" by linarith
        then show ?thesis by (simp add: img1_def)
      qed
      have frame: "img' = img\<lparr>image_level_images := ?lis'\<rparr>"
      proof -
        from IH have "img' = img1\<lparr>image_level_images := ?lis'\<rparr>" by blast
        then show ?thesis by (simp add: img1_def)
      qed
      have len: "length ?lis' = length ?lis" using IH by (simp add: img1_def)
      have before: "\<forall>L. 0 \<le> L \<and> L < d \<longrightarrow> ?lis' ! nat L = ?lis ! nat L"
      proof (intro allI impI)
        fix L assume L: "0 \<le> L \<and> L < d"
        with IH have "?lis' ! nat L = image_level_images img1 ! nat L" by simp
        with L other [of L] show "?lis' ! nat L = ?lis ! nat L" by simp
      qed
      have after: "\<forall>L. d \<le> L \<and> L < image_level_count img \<longrightarrow>
        ?lis' ! nat L = placeholder_level_image img L (?lis ! nat L) \<or>
        (\<exists>idx. n \<le> idx \<and> idx < wsi_level_count ?wsi \<and>
           wl_downsample_level (wsi_levels ?wsi ! nat idx) = L \<and>
           existing_level_image (?lis ! nat L) idx (wsi_levels ?wsi ! nat idx)
             = Inr (?lis' ! nat L))"
      proof (intro allI impI)
        fix L assume L: "d \<le> L \<and> L < image_level_count img"
        show "?lis' ! nat L = placeholder_level_image img L (?lis ! nat L) \<or>
          (\<exists>idx. n \<le> idx \<and> idx < wsi_level_count ?wsi \<and>
             wl_downsample_level (wsi_levels ?wsi ! nat idx) = L \<and>
             existing_level_image (?lis ! nat L) idx (wsi_levels ?wsi ! nat idx)
               = Inr (?lis' ! nat L))"
        proof (cases "L = d")
          case True
          with at_d show ?thesis by simp
        next
          case False
          with L "1.prems"(2) have L1: "d + 1 \<le> L \<and> L < image_level_count img1" and L0: "0 \<le> L"
            by (simp_all add: img1_def)
          from IH L1 have "?lis' ! nat L =
              placeholder_level_image img1 L (image_level_images img1 ! nat L) \<or>
            (\<exists>idx. n \<le> idx \<and> idx < wsi_level_count (image_wsi img1) \<and>
               wl_downsample_level (wsi_levels (image_wsi img1) ! nat idx) = L \<and>
               existing_level_image (image_level_images img1 ! nat L) idx
                 (wsi_levels (image_wsi img1) ! nat idx) = Inr (?lis' ! nat L))"
            by blast
          then show ?thesis
            unfolding other [OF L0 False] by (simp add: img1_def)
        qed
      qed
      have mono: "\<forall>L1 L2. d \<le> L1 \<and> L1 < L2 \<and> L2 < image_level_count img \<and>
        li_exists (?lis' ! nat L1) \<and> li_exists (?lis' ! nat L2) \<longrightarrow>
        li_pyramid_image_index (?lis' ! nat L1) < li_pyramid_image_index (?lis' ! nat L2)"
      proof (intro allI impI)
        fix L1 L2
        assume a: "d \<le> L1 \<and> L1 < L2 \<and> L2 < image_level_count img \<and>
          li_exists (?lis' ! nat L1) \<and> li_exists (?lis' ! nat L2)"
        have "L1 \<noteq> d"
        proof
          assume "L1 = d"
          with a at_d show False by simp
        qed
        with a have "d + 1 \<le> L1 \<and> L1 < L2 \<and> L2 < image_level_count img1 \<and>
          li_exists (?lis' ! nat L1) \<and> li_exists (?lis' ! nat L2)"
          by (simp add: img1_def)
        with IH show "li_pyramid_image_index (?lis' ! nat L1)
            < li_pyramid_image_index (?lis' ! nat L2)" by blast
      qed
      from frame len before after mono show ?thesis by blast
    next
      case (Some idx0)
      note found = find_wsi_level_Some [OF Some]
      obtain li where ex: "existing_level_image (?lis ! nat d) idx0
          (wsi_levels ?wsi ! nat idx0) = Inr li"
        using "1.prems"(1) True Some
        by (cases "existing_level_image (?lis ! nat d) idx0 (wsi_levels ?wsi ! nat idx0)")
           (simp_all add: load_level_images.simps [of d n img])
      define img1 where "img1 = img\<lparr>image_level_images := ?lis[nat d := li]\<rparr>"
      have rest: "load_level_images (d + 1) (idx0 + 1) img1 = Inr img'"
        using "1.prems"(1) True Some ex
        by (simp add: load_level_images.simps [of d n img] img1_def)
      have len1: "image_level_count img1 \<le> int (length (image_level_images img1))"
        using "1.prems"(3) by (simp add: img1_def)
      note IH = "1.IH"(2) [OF True Some ex, folded img1_def, OF rest d1 len1]
      have at_d: "?lis' ! nat d = li"
      proof -
        from IH "1.prems"(2) have "?lis' ! nat d = image_level_images img1 ! nat d" by simp
        then show ?thesis using d_range by (simp add: img1_def)
      qed
      have other: "image_level_images img1 ! nat L = ?lis ! nat L" if "0 \<le> L" "L \<noteq> d" for L
      proof -
        from that "1.prems"(2) have "nat d \<noteq> nat L" by linarith
        then show ?thesis by (simp add: img1_def)
      qed
      have frame: "img' = img\<lparr>image_level_images := ?lis'\<rparr>"
      proof -
        from IH have "img' = img1\<lparr>image_level_images := ?lis'\<rparr>" by blast
        then show ?thesis by (simp add: img1_def)
      qed
      have len: "length ?lis' = length ?lis" using IH by (simp add: img1_def)
      have before: "\<forall>L. 0 \<le> L \<and> L < d \<longrightarrow> ?lis' ! nat L = ?lis ! nat L"
      proof (intro allI impI)
        fix L assume L: "0 \<le> L \<and> L < d"
        with IH have "?lis' ! nat L = image_level_images img1 ! nat L" by simp
        with L other [of L] show "?lis' ! nat L = ?lis ! nat L" by simp
      qed
      have later: "?lis' ! nat L = placeholder_level_image img L (?lis ! nat L) \<or>
          (\<exists>idx. idx0 + 1 \<le> idx \<and> idx < wsi_level_count ?wsi \<and>
             wl_downsample_level (wsi_levels ?wsi ! nat idx) = L \<and>
             existing_level_image (?lis ! nat L) idx (wsi_levels ?wsi ! nat idx)
               = Inr (?lis' ! nat L))"
        if L: "d + 1 \<le> L \<and> L < image_level_count img" for L
      proof -
        from L "1.prems"(2) have L1: "d + 1 \<le> L \<and> L < image_level_count img1"
          and L0: "0 \<le> L" and Ld: "L \<noteq> d"
          by (simp_all add: img1_def)
        from IH L1 have "?lis' ! nat L =
            placeholder_level_image img1 L (image_level_images img1 ! nat L) \<or>
          (\<exists>idx. idx0 + 1 \<le> idx \<and> idx < wsi_level_count (image_wsi img1) \<and>
             wl_downsample_level (wsi_levels (image_wsi img1) ! nat idx) = L \<and>
             existing_level_image (image_level_images img1 ! nat L) idx
               (wsi_levels (image_wsi img1) ! nat idx) = Inr (?lis' ! nat L))"
          by blast
        then show ?thesis
          unfolding other [OF L0 Ld] by (simp add: img1_def)
      qed
      have after: "\<forall>L. d \<le> L \<and> L < image_level_count img \<longrightarrow>
        ?lis' ! nat L = placeholder_level_image img L (?lis ! nat L) \<or>
        (\<exists>idx. n \<le> idx \<and> idx < wsi_level_count ?wsi \<and>
           wl_downsample_level (wsi_levels ?wsi ! nat idx) = L \<and>
           existing_level_image (?lis ! nat L) idx (wsi_levels ?wsi ! nat idx)
             = Inr (?lis' ! nat L))"
      proof (intro allI impI)
        fix L assume L: "d \<le> L \<and> L < image_level_count img"
        show "?lis' ! nat L = placeholder_level_image img L (?lis ! nat L) \<or>
          (\<exists>idx. n \<le> idx \<and> idx < wsi_level_count ?wsi \<and>
             wl_downsample_level (wsi_levels ?wsi ! nat idx) = L \<and>
             existing_level_image (?lis ! nat L) idx (wsi_levels ?wsi ! nat idx)
               = Inr (?lis' ! nat L))"
        proof (cases "L = d")
          case True
          with at_d ex found show ?thesis by blast
        next
          case False
          with L have "d + 1 \<le> L \<and> L < image_level_count img" by simp
          from later [OF this] found show ?thesis by force
        qed
      qed
      have mono: "\<forall>L1 L2. d \<le> L1 \<and> L1 < L2 \<and> L2 < image_level_count img \<and>
        li_exists (?lis' ! nat L1) \<and> li_exists (?lis' ! nat L2) \<longrightarrow>
        li_pyramid_image_index (?lis' ! nat L1) < li_pyramid_image_index (?lis' ! nat L2)"
      proof (intro allI impI)
        fix L1 L2
        assume a: "d \<le> L1 \<and> L1 < L2 \<and> L2 < image_level_count img \<and>
          li_exists (?lis' ! nat L1) \<and> li_exists (?lis' ! nat L2)"
        show "li_pyramid_image_index (?lis' ! nat L1)
            < li_pyramid_image_index (?lis' ! nat L2)"
        proof (cases "L1 = d")
          case True
          from a True have "d + 1 \<le> L2 \<and> L2 < image_level_count img" by simp
          from later [OF this] a obtain idx where
            idx: "idx0 + 1 \<le> idx" and
            e2: "existing_level_image (?lis ! nat L2) idx (wsi_levels ?wsi ! nat idx)
               = Inr (?lis' ! nat L2)"
            by auto
          have "li_pyramid_image_index (?lis' ! nat L2) = idx"
            by (rule existing_level_image_Inr(2) [OF e2])
          moreover have "li_pyramid_image_index (?lis' ! nat L1) = idx0"
            using True at_d existing_level_image_Inr(2) [OF ex] by simp
          ultimately show ?thesis using idx by simp
        next
          case False
          with a have "d + 1 \<le> L1 \<and> L1 < L2 \<and> L2 < image_level_count img1 \<and>
            li_exists (?lis' ! nat L1) \<and> li_exists (?lis' ! nat L2)"
            by (simp add: img1_def)
          with IH show ?thesis by blast
        qed
      qed
      from frame len before after mono show ?thesis by blast
    qed
  qed
qed

lemma placeholder_frame_valid [simp]:
  "placeholder_level_image (img\<lparr>image_is_valid := b\<rparr>) L li0 =
   placeholder_level_image img L li0"
  by (simp add: placeholder_level_image_def Let_def)

lemma init_level_images_Inr:
  assumes "init_level_images cfg img = Inr img'"
  shows "0 \<le> wsi_max_downsample_level (image_wsi img)"
    and "wsi_level_count (image_wsi img) \<le> wsi_max_downsample_level (image_wsi img) + 1"
    and "wsi_max_downsample_level (image_wsi img) + 1 \<le> WSI_MAX_LEVELS cfg"
    and "load_level_images 0 0
           (img\<lparr>image_level_images :=
                   replicate (length (image_level_images img)) level_image_zero,
                image_level_count := wsi_max_downsample_level (image_wsi img) + 1\<rparr>) = Inr img'"
proof -
  show a: "0 \<le> wsi_max_downsample_level (image_wsi img)"
  proof (rule ccontr)
    assume "\<not> 0 \<le> wsi_max_downsample_level (image_wsi img)"
    with assms show False by (simp add: init_level_images_def)
  qed
  show b: "wsi_level_count (image_wsi img) \<le> wsi_max_downsample_level (image_wsi img) + 1"
  proof (rule ccontr)
    assume "\<not> wsi_level_count (image_wsi img) \<le> wsi_max_downsample_level (image_wsi img) + 1"
    with assms a show False by (simp add: init_level_images_def Let_def)
  qed
  show c: "wsi_max_downsample_level (image_wsi img) + 1 \<le> WSI_MAX_LEVELS cfg"
  proof (rule ccontr)
    assume "\<not> wsi_max_downsample_level (image_wsi img) + 1 \<le> WSI_MAX_LEVELS cfg"
    with assms a b show False by (simp add: init_level_images_def Let_def)
  qed
  from assms a b c show "load_level_images 0 0
           (img\<lparr>image_level_images :=
                   replicate (length (image_level_images img)) level_image_zero,
                image_level_count := wsi_max_downsample_level (image_wsi img) + 1\<rparr>) = Inr img'"
    by (simp add: init_level_images_def Let_def)
qed

lemma load_image_from_file_opened:
  assumes A: "load_image_from_file cfg avail opened = Inr img" and V: "image_is_valid img"
  shows "\<exists>osr. opened = Some osr \<and> wsi_osr (image_wsi img) = Some osr"
    and "load_wsi cfg (wsi_zero cfg) opened = Inr (image_wsi img)"
    and "image_backend img = IMAGE_BACKEND_OPENSLIDE"
    and "image_type img = IMAGE_TYPE_WSI"
    and "image_mpp_x img = wsi_mpp_x (image_wsi img)"
    and "image_mpp_y img = wsi_mpp_y (image_wsi img)"
    and "image_is_mpp_known img = wsi_is_mpp_known (image_wsi img)"
    and "image_tile_width img = wsi_tile_width (image_wsi img)"
    and "image_tile_height img = wsi_tile_height (image_wsi img)"
    and "image_width_in_um img = of_int (wsi_width (image_wsi img)) * wsi_mpp_x (image_wsi img)"
    and "image_height_in_um img = of_int (wsi_height (image_wsi img)) * wsi_mpp_y (image_wsi img)"
    and "image_level_count img = wsi_max_downsample_level (image_wsi img) + 1"
    and "0 < wsi_level_count (image_wsi img)"
    and "wsi_level_count (image_wsi img) \<le> image_level_count img"
    and "image_level_count img \<le> WSI_MAX_LEVELS cfg"
    and "length (image_level_images img) = nat (WSI_MAX_LEVELS cfg)"
    and "\<forall>L. 0 \<le> L \<and> L < image_level_count img \<longrightarrow>
        image_level_images img ! nat L = placeholder_level_image img L level_image_zero \<or>
        (\<exists>idx. 0 \<le> idx \<and> idx < wsi_level_count (image_wsi img) \<and>
           wl_downsample_level (wsi_levels (image_wsi img) ! nat idx) = L \<and>
           existing_level_image level_image_zero idx
             (wsi_levels (image_wsi img) ! nat idx) = Inr (image_level_images img ! nat L))"
    and "\<forall>L1 L2. 0 \<le> L1 \<and> L1 < L2 \<and> L2 < image_level_count img \<and>
        li_exists (image_level_images img ! nat L1) \<and>
        li_exists (image_level_images img ! nat L2) \<longrightarrow>
        li_pyramid_image_index (image_level_images img ! nat L1)
          < li_pyramid_image_index (image_level_images img ! nat L2)"
proof -
  have av: "avail"
  proof (rule ccontr)
    assume "\<not> avail"
    with A V show False by (auto simp: load_image_from_file_def Let_def)
  qed
  define img1 where "img1 = (image_zero cfg)\<lparr>image_type := IMAGE_TYPE_WSI,
                          image_backend := IMAGE_BACKEND_OPENSLIDE\<rparr>"
  have w0: "image_wsi (image_zero cfg) = wsi_zero cfg" by (simp add: image_zero_def)
  obtain wsi where lw: "load_wsi cfg (wsi_zero cfg) opened = Inr wsi"
    using A av
    by (cases "load_wsi cfg (wsi_zero cfg) opened")
       (simp_all add: load_image_from_file_def Let_def w0)
  have osr_ne: "wsi_osr wsi \<noteq> None"
  proof
    assume "wsi_osr wsi = None"
    with A av lw have "img = img1\<lparr>image_wsi := wsi\<rparr>"
      by (simp add: load_image_from_file_def Let_def img1_def w0)
    with V show False by (simp add: img1_def image_zero_def)
  qed
  define img3 where "img3 = image_from_wsi (img1\<lparr>image_wsi := wsi\<rparr>) wsi"
  have x0: "0 < wl_x_tile_side_in_um (wsi_levels wsi ! 0)"
  proof (rule ccontr)
    assume "\<not> 0 < wl_x_tile_side_in_um (wsi_levels wsi ! 0)"
    with A av lw osr_ne show False
      by (simp add: load_image_from_file_def Let_def w0)
  qed
  have lc0: "image_level_count img3 = 0"
    by (simp add: img3_def image_from_wsi_def img1_def image_zero_def)
  have cnt: "0 < wsi_level_count wsi"
  proof (rule ccontr)
    assume "\<not> 0 < wsi_level_count wsi"
    with A av lw osr_ne x0 lc0 show False
      by (simp add: load_image_from_file_def Let_def img3_def img1_def w0
            del: One_nat_def)
  qed
  obtain img4 where i4: "init_level_images cfg img3 = Inr img4"
    using A av lw osr_ne x0 cnt
    by (cases "init_level_images cfg img3")
       (simp_all add: load_image_from_file_def Let_def img3_def img1_def w0)
  have fin: "img = img4\<lparr>image_is_valid := True\<rparr>" and lc4: "0 < image_level_count img4"
    using A av lw osr_ne x0 cnt i4
    by (simp_all add: load_image_from_file_def Let_def img3_def img1_def w0 split: if_splits)
  have wsi3: "image_wsi img3 = wsi" by (simp add: img3_def image_from_wsi_def)
  have len3: "length (image_level_images img3) = nat (WSI_MAX_LEVELS cfg)"
    by (simp add: img3_def image_from_wsi_def img1_def image_zero_def)
  define img5 where "img5 = img3\<lparr>image_level_images :=
                   replicate (length (image_level_images img3)) level_image_zero,
                image_level_count := wsi_max_downsample_level (image_wsi img3) + 1\<rparr>"
  note ini = init_level_images_Inr [OF i4, folded img5_def]
  have len5: "image_level_count img5 \<le> int (length (image_level_images img5))"
    using ini(1,3) by (simp add: img5_def len3)
  note inv = load_level_images_inv [OF ini(4) order_refl len5]
  from inv have frame: "img4 = img5\<lparr>image_level_images := image_level_images img4\<rparr>" by blast
  have all: "img = img3\<lparr>image_level_images := image_level_images img4,
                image_level_count := wsi_max_downsample_level wsi + 1,
                image_is_valid := True\<rparr>"
    by (subst fin, subst frame) (simp add: img5_def wsi3)
  have lis: "image_level_images img = image_level_images img4" by (simp add: fin)
  have iw: "image_wsi img = wsi" by (simp add: all wsi3)
  from load_wsi_opened [OF lw osr_ne] obtain osr where
    "opened = Some osr \<and> wsi_osr wsi = Some osr" by (auto simp: wsi_zero_def)
  then show "\<exists>osr. opened = Some osr \<and> wsi_osr (image_wsi img) = Some osr"
    unfolding iw by blast
  show "load_wsi cfg (wsi_zero cfg) opened = Inr (image_wsi img)" unfolding iw by (rule lw)
  show "image_backend img = IMAGE_BACKEND_OPENSLIDE"
    by (simp add: all img3_def image_from_wsi_def img1_def)
  show "image_type img = IMAGE_TYPE_WSI"
    by (simp add: all img3_def image_from_wsi_def img1_def)
  show "image_mpp_x img = wsi_mpp_x (image_wsi img)"
    unfolding iw by (simp add: all img3_def image_from_wsi_def)
  show "image_mpp_y img = wsi_mpp_y (image_wsi img)"
    unfolding iw by (simp add: all img3_def image_from_wsi_def)
  show "image_is_mpp_known img = wsi_is_mpp_known (image_wsi img)"
    unfolding iw by (simp add: all img3_def image_from_wsi_def)
  show "image_tile_width img = wsi_tile_width (image_wsi img)"
    unfolding iw by (simp add: all img3_def image_from_wsi_def)
  show "image_tile_height img = wsi_tile_height (image_wsi img)"
    unfolding iw by (simp add: all img3_def image_from_wsi_def)
  show "image_width_in_um img = of_int (wsi_width (image_wsi img)) * wsi_mpp_x (image_wsi img)"
    unfolding iw by (simp add: all img3_def image_from_wsi_def)
  show "image_height_in_um img = of_int (wsi_height (image_wsi img)) * wsi_mpp_y (image_wsi img)"
    unfolding iw by (simp add: all img3_def image_from_wsi_def)
  show lc: "image_level_count img = wsi_max_downsample_level (image_wsi img) + 1"
    unfolding iw by (simp add: all)
  show "0 < wsi_level_count (image_wsi img)" unfolding iw by (rule cnt)
  show "wsi_level_count (image_wsi img) \<le> image_level_count img"
    unfolding lc using ini(2) by (simp add: iw wsi3)
  show "image_level_count img \<le> WSI_MAX_LEVELS cfg"
    unfolding lc using ini(3) by (simp add: iw wsi3)
  show "length (image_level_images img) = nat (WSI_MAX_LEVELS cfg)"
    unfolding lis using inv by (simp add: img5_def len3)
  have lc5: "image_level_count img5 = image_level_count img"
    by (simp add: img5_def all wsi3)
  have w5: "image_wsi img5 = image_wsi img" by (simp add: img5_def wsi3 iw)
  have ph: "placeholder_level_image img5 L li0 = placeholder_level_image img L li0" for L li0
    by (simp add: all img5_def placeholder_level_image_def Let_def wsi3)
  have z5: "image_level_images img5 ! nat L = level_image_zero"
    if "0 \<le> L \<and> L < image_level_count img" for L
  proof -
    from that have "nat L < nat (WSI_MAX_LEVELS cfg)"
      using ini(3) lc by (simp add: iw wsi3)
    then show ?thesis by (simp add: img5_def len3)
  qed
  show "\<forall>L. 0 \<le> L \<and> L < image_level_count img \<longrightarrow>
        image_level_images img ! nat L = placeholder_level_image img L level_image_zero \<or>
        (\<exists>idx. 0 \<le> idx \<and> idx < wsi_level_count (image_wsi img) \<and>
           wl_downsample_level (wsi_levels (image_wsi img) ! nat idx) = L \<and>
           existing_level_image level_image_zero idx
             (wsi_levels (image_wsi img) ! nat idx) = Inr (image_level_images img ! nat L))"
  proof (intro allI impI)
    fix L assume L: "0 \<le> L \<and> L < image_level_count img"
    with inv have "image_level_images img4 ! nat L =
          placeholder_level_image img5 L (image_level_images img5 ! nat L) \<or>
        (\<exists>idx. 0 \<le> idx \<and> idx < wsi_level_count (image_wsi img5) \<and>
           wl_downsample_level (wsi_levels (image_wsi img5) ! nat idx) = L \<and>
           existing_level_image (image_level_images img5 ! nat L) idx
             (wsi_levels (image_wsi img5) ! nat idx) = Inr (image_level_images img4 ! nat L))"
      unfolding lc5 by blast
    then show "image_level_images img ! nat L = placeholder_level_image img L level_image_zero \<or>
        (\<exists>idx. 0 \<le> idx \<and> idx < wsi_level_count (image_wsi img) \<and>
           wl_downsample_level (wsi_levels (image_wsi img) ! nat idx) = L \<and>
           existing_level_image level_image_zero idx
             (wsi_levels (image_wsi img) ! nat idx) = Inr (image_level_images img ! nat L))"
      unfolding z5 [OF L] ph w5 lis .
  qed
  show "\<forall>L1 L2. 0 \<le> L1 \<and> L1 < L2 \<and> L2 < image_level_count img \<and>
        li_exists (image_level_images img ! nat L1) \<and>
        li_exists (image_level_images img ! nat L2) \<longrightarrow>
        li_pyramid_image_index (image_level_images img ! nat L1)
          < li_pyramid_image_index (image_level_images img ! nat L2)"
    using inv unfolding lc5 lis by blast
qed

lemmas example_eval =
  example_config_def example_slide_def example_flat_slide_def
  load_image_from_file_def load_wsi_def load_wsi_levels.simps load_wsi_level_def
  load_wsi_mpp_def image_zero_def wsi_zero_def unload_wsi_def Let_def
  init_level_images_def image_from_wsi_def load_level_images.simps find_wsi_level.simps
  existing_level_image_def placeholder_level_image_def init_tiles.simps
  c_div_def c_mod_def i32_cast_def exp2f_def
  wsi_level_zero_def level_image_zero_def tile_zero_def eval_nat_numeral

lemma example_opened:
  "\<not> isl (load_image_from_file example_config True (Some example_slide))"
  "image_is_valid (projr (load_image_from_file example_config True (Some example_slide)))"
  by (simp_all add: example_eval)



lemma example_flat_wsi:
  "\<not> isl (load_wsi example_config (wsi_zero example_config) (Some example_flat_slide))"
  "wsi_osr (projr (load_wsi example_config (wsi_zero example_config) (Some example_flat_slide)))
     \<noteq> None"
  "wsi_max_downsample_level
     (projr (load_wsi example_config (wsi_zero example_config) (Some example_flat_slide))) + 1
   < wsi_level_count
       (projr (load_wsi example_config (wsi_zero example_config) (Some example_flat_slide)))"
  by (simp_all add: example_eval)

text \<open>
  Claim C3, as amended. If the opened slide has more native levels than the number of
  logical levels computed from the largest downsample level, opening the image ends in
  \<^verbatim>\<open>panic()\<close>: control does not come back to the caller, so no image value is returned,
  neither a partial one nor one marked invalid, and the list of levels is never cut.
\<close>

theorem more_native_than_logical_levels_panics:
  assumes "load_wsi cfg (wsi_zero cfg) (Some osr) = Inr wsi" and "wsi_osr wsi \<noteq> None"
    and "0 < WSI_TILE_DIM cfg"
    and "wsi_max_downsample_level wsi + 1 < wsi_level_count wsi"
  shows "load_image_from_file cfg True (Some osr) = Inl Panic"
proof -
  have len0: "length (wsi_levels (wsi_zero cfg)) = nat (WSI_MAX_LEVELS cfg)"
    by (simp add: wsi_zero_def)
  from load_wsi_opened [OF assms(1,2) len0] obtain osr' where
    o: "Some osr = Some osr'"
    and mx: "wsi_max_downsample_level (wsi_zero cfg) \<le> wsi_max_downsample_level wsi"
    and mppx: "wsi_mpp_x wsi =
             (case mpp_x_property osr' of None \<Rightarrow> 1 | Some v \<Rightarrow> if 0 < v then v else 1)"
    and lv: "\<forall>j. 0 \<le> j \<and> j < wsi_level_count wsi \<longrightarrow>
              native_level_ok cfg osr' (wsi_mpp_x wsi) (wsi_mpp_y wsi) j (wsi_levels wsi ! nat j) \<and>
              wl_downsample_level (wsi_levels wsi ! nat j) \<le> wsi_max_downsample_level wsi"
    by blast
  have m0: "0 \<le> wsi_max_downsample_level wsi" using mx by (simp add: wsi_zero_def)
  with assms(4) have cnt: "0 < wsi_level_count wsi" by simp
  have px: "0 < wsi_mpp_x wsi" unfolding mppx by (simp split: option.splits)
  from lv cnt have "native_level_ok cfg osr' (wsi_mpp_x wsi) (wsi_mpp_y wsi) 0 (wsi_levels wsi ! 0)"
    by force
  then have x0: "0 < wl_x_tile_side_in_um (wsi_levels wsi ! 0)"
    using px assms(3) by (simp add: native_level_ok_def exp2f_pos)
  have w0: "image_wsi (image_zero cfg) = wsi_zero cfg" by (simp add: image_zero_def)
  show ?thesis
    using assms(1,2,4) x0 cnt m0
    by (simp add: load_image_from_file_def Let_def w0 init_level_images_def image_from_wsi_def)
qed

theorem more_native_than_logical_levels_panics_witness:
  "\<exists>wsi. load_wsi example_config (wsi_zero example_config) (Some example_flat_slide) = Inr wsi \<and>
     wsi_osr wsi \<noteq> None \<and> 0 < WSI_TILE_DIM example_config \<and>
     wsi_max_downsample_level wsi + 1 < wsi_level_count wsi \<and>
     load_image_from_file example_config True (Some example_flat_slide) = Inl Panic"
proof -
  obtain wsi where
    w: "load_wsi example_config (wsi_zero example_config) (Some example_flat_slide) = Inr wsi"
    using example_flat_wsi(1)
    by (cases "load_wsi example_config (wsi_zero example_config) (Some example_flat_slide)")
       simp_all
  have a: "wsi_osr wsi \<noteq> None"
    and b: "wsi_max_downsample_level wsi + 1 < wsi_level_count wsi"
    using example_flat_wsi(2,3) w by simp_all
  have c: "0 < WSI_TILE_DIM example_config" by (simp add: example_config_def)
  from more_native_than_logical_levels_panics [OF w a c b] w a b c show ?thesis by blast
qed

text \<open>
  Claim C3, as stated, fails on \<open>example_flat_slide\<close>: two native levels, one logical
  level. Opening it does not give the caller an image marked invalid, as a failed open
  does; it ends in \<^verbatim>\<open>panic()\<close>.
\<close>

theorem open_panics_counterexample:
  "get_level_count example_flat_slide = 2 \<and>
   get_level_downsample_level example_flat_slide 0 = 0 \<and>
   get_level_downsample_level example_flat_slide 1 = 0 \<and>
   load_image_from_file example_config True (Some example_flat_slide) = Inl Panic"
  by (simp add: example_eval)

text \<open>
  Claim C5. In an opened image, the native level indices matched to the logical levels
  that exist increase strictly with the logical level, so no native level is matched to
  two different logical levels.
\<close>

theorem native_level_matched_at_most_once:
  assumes "load_image_from_file cfg avail opened = Inr img" and "image_is_valid img"
    and "0 \<le> L1" and "L1 < L2" and "L2 < image_level_count img"
    and "li_exists (image_level_images img ! nat L1)"
    and "li_exists (image_level_images img ! nat L2)"
  shows "li_pyramid_image_index (image_level_images img ! nat L1)
           < li_pyramid_image_index (image_level_images img ! nat L2)"
  using load_image_from_file_opened(18) [OF assms(1,2)] assms(3-7) by blast

theorem native_level_matched_at_most_once_witness:
  "\<exists>img. load_image_from_file example_config True (Some example_slide) = Inr img \<and>
     image_is_valid img \<and> (0::int) \<le> 0 \<and> (0::int) < 2 \<and> 2 < image_level_count img \<and>
     li_exists (image_level_images img ! nat 0) \<and>
     li_exists (image_level_images img ! nat 2) \<and>
     li_pyramid_image_index (image_level_images img ! nat 0)
       < li_pyramid_image_index (image_level_images img ! nat 2)"
proof -
  obtain img where img: "load_image_from_file example_config True (Some example_slide) = Inr img"
    using example_opened(1)
    by (cases "load_image_from_file example_config True (Some example_slide)") simp_all
  with example_opened(2) have v: "image_is_valid img" by simp
  have "2 < image_level_count
          (projr (load_image_from_file example_config True (Some example_slide)))"
    "li_exists (image_level_images
          (projr (load_image_from_file example_config True (Some example_slide))) ! nat 0)"
    "li_exists (image_level_images
          (projr (load_image_from_file example_config True (Some example_slide))) ! nat 2)"
    by (simp_all add: example_eval)
  with img have c: "2 < image_level_count img"
    and e0: "li_exists (image_level_images img ! nat 0)"
    and e2: "li_exists (image_level_images img ! nat 2)" by simp_all
  have z: "(0::int) \<le> 0" and l: "(0::int) < 2" by simp_all
  from native_level_matched_at_most_once [OF img v z l c e0 e2] img v c e0 e2
  show ?thesis by simp
qed

lemma placeholder_of_zero:
  "placeholder_level_image img L level_image_zero =
     \<lparr>li_exists = False, li_pyramid_image_index = 0, li_downsample_factor = exp2f L,
      li_tile_count = 0, li_width_in_tiles = 0, li_height_in_tiles = 0,
      li_tile_width = image_tile_width img, li_tile_height = image_tile_height img,
      li_um_per_pixel_x = image_mpp_x img * exp2f L,
      li_um_per_pixel_y = image_mpp_y img * exp2f L,
      li_x_tile_side_in_um =
        image_mpp_x img * exp2f L * of_int (wl_tile_width (wsi_levels (image_wsi img) ! 0)),
      li_y_tile_side_in_um =
        image_mpp_y img * exp2f L * of_int (wl_tile_height (wsi_levels (image_wsi img) ! 0)),
      li_tiles = []\<rparr>"
  by (simp add: placeholder_level_image_def level_image_zero_def Let_def)

lemma opened_native_levels:
  assumes "load_image_from_file cfg avail opened = Inr img" and "image_is_valid img"
    and "0 \<le> idx" and "idx < wsi_level_count (image_wsi img)"
  shows "\<exists>osr. opened = Some osr \<and>
           native_level_ok cfg osr (image_mpp_x img) (image_mpp_y img) idx
             (wsi_levels (image_wsi img) ! nat idx)"
proof -
  note o = load_image_from_file_opened [OF assms(1,2)]
  have ne: "wsi_osr (image_wsi img) \<noteq> None" using o(1) by auto
  have len0: "length (wsi_levels (wsi_zero cfg)) = nat (WSI_MAX_LEVELS cfg)"
    by (simp add: wsi_zero_def)
  from load_wsi_opened [OF o(2) ne len0] assms(3,4) show ?thesis
    unfolding o(5,6) by blast
qed

lemma opened_level_cases:
  assumes "load_image_from_file cfg avail opened = Inr img" and "image_is_valid img"
    and "0 \<le> L" and "L < image_level_count img"
  obtains (placeholder)
      "image_level_images img ! nat L = placeholder_level_image img L level_image_zero"
    | (existing) idx osr where "0 \<le> idx" and "idx < wsi_level_count (image_wsi img)"
      and "wl_downsample_level (wsi_levels (image_wsi img) ! nat idx) = L"
      and "existing_level_image level_image_zero idx (wsi_levels (image_wsi img) ! nat idx)
             = Inr (image_level_images img ! nat L)"
      and "opened = Some osr"
      and "native_level_ok cfg osr (image_mpp_x img) (image_mpp_y img) idx
             (wsi_levels (image_wsi img) ! nat idx)"
proof -
  from load_image_from_file_opened(17) [OF assms(1,2)] assms(3,4)
  consider "image_level_images img ! nat L = placeholder_level_image img L level_image_zero"
    | idx where "0 \<le> idx" "idx < wsi_level_count (image_wsi img)"
      "wl_downsample_level (wsi_levels (image_wsi img) ! nat idx) = L"
      "existing_level_image level_image_zero idx (wsi_levels (image_wsi img) ! nat idx)
             = Inr (image_level_images img ! nat L)"
    by blast
  then show thesis
  proof cases
    case 1
    then show ?thesis by (rule placeholder)
  next
    case (2 idx)
    from opened_native_levels [OF assms(1,2) 2(1,2)] obtain osr where
      "opened = Some osr" "native_level_ok cfg osr (image_mpp_x img) (image_mpp_y img) idx
             (wsi_levels (image_wsi img) ! nat idx)" by blast
    with 2 show ?thesis by (rule existing)
  qed
qed



lemma example_levels:
  "2 < image_level_count
         (projr (load_image_from_file example_config True (Some example_slide)))"
  "image_level_images
     (projr (load_image_from_file example_config True (Some example_slide))) ! nat 0 =
     \<lparr>li_exists = True, li_pyramid_image_index = 0, li_downsample_factor = 1,
      li_tile_count = 6, li_width_in_tiles = 3, li_height_in_tiles = 2,
      li_tile_width = 4, li_tile_height = 4, li_um_per_pixel_x = 1, li_um_per_pixel_y = 1 / 4,
      li_x_tile_side_in_um = 4, li_y_tile_side_in_um = 1,
      li_tiles =
        [\<lparr>t_tile_index = 0, t_tile_x = 0, t_tile_y = 0\<rparr>,
         \<lparr>t_tile_index = 1, t_tile_x = 1, t_tile_y = 0\<rparr>,
         \<lparr>t_tile_index = 2, t_tile_x = 2, t_tile_y = 0\<rparr>,
         \<lparr>t_tile_index = 3, t_tile_x = 0, t_tile_y = 1\<rparr>,
         \<lparr>t_tile_index = 4, t_tile_x = 1, t_tile_y = 1\<rparr>,
         \<lparr>t_tile_index = 5, t_tile_x = 2, t_tile_y = 1\<rparr>]\<rparr>"
  "image_level_images
     (projr (load_image_from_file example_config True (Some example_slide))) ! nat 1 =
     \<lparr>li_exists = False, li_pyramid_image_index = 0, li_downsample_factor = 2,
      li_tile_count = 0, li_width_in_tiles = 0, li_height_in_tiles = 0,
      li_tile_width = 4, li_tile_height = 4, li_um_per_pixel_x = 2, li_um_per_pixel_y = 1 / 2,
      li_x_tile_side_in_um = 8, li_y_tile_side_in_um = 2, li_tiles = []\<rparr>"
  "wl_width (wsi_levels (image_wsi
     (projr (load_image_from_file example_config True (Some example_slide)))) ! nat 0) = 10"
  "wl_height (wsi_levels (image_wsi
     (projr (load_image_from_file example_config True (Some example_slide)))) ! nat 0) = 6"
  "image_mpp_x (projr (load_image_from_file example_config True (Some example_slide))) = 1"
  "image_mpp_y (projr (load_image_from_file example_config True (Some example_slide))) = 1 / 4"
  "image_tile_width (projr (load_image_from_file example_config True (Some example_slide))) = 4"
  "image_tile_height (projr (load_image_from_file example_config True (Some example_slide))) = 4"
  by (simp_all add: example_eval)


text \<open>
  Claim C6. In an opened image the logical levels are the indices \<open>0\<close> to
  \<open>max_downsample_level\<close> of the level array, none missing, and level \<open>L\<close> has downsample
  factor \<open>2 ^ L\<close>. A level that exists is backed by a native level whose downsample level
  is \<open>L\<close>; so when no native level has it, the level is a placeholder. A placeholder has
  \<open>exists = false\<close>, the tile width and height of the image, and microns per pixel equal
  to those of the image times \<open>2 ^ L\<close>.
\<close>

theorem level_stack_dense_powers_of_two:
  assumes "load_image_from_file cfg avail opened = Inr img" and "image_is_valid img"
    and "0 \<le> L" and "L < image_level_count img"
  shows "let li = image_level_images img ! nat L in
         image_level_count img = wsi_max_downsample_level (image_wsi img) + 1 \<and>
         nat L < length (image_level_images img) \<and>
         li_downsample_factor li = 2 ^ nat L \<and>
         (li_exists li \<longrightarrow>
            0 \<le> li_pyramid_image_index li \<and>
            li_pyramid_image_index li < wsi_level_count (image_wsi img) \<and>
            wl_downsample_level (wsi_levels (image_wsi img) ! nat (li_pyramid_image_index li))
              = L) \<and>
         ((\<forall>i. 0 \<le> i \<and> i < wsi_level_count (image_wsi img) \<longrightarrow>
              wl_downsample_level (wsi_levels (image_wsi img) ! nat i) \<noteq> L) \<longrightarrow>
            \<not> li_exists li) \<and>
         (\<not> li_exists li \<longrightarrow>
            li_tile_width li = image_tile_width img \<and>
            li_tile_height li = image_tile_height img \<and>
            li_um_per_pixel_x li = image_mpp_x img * 2 ^ nat L \<and>
            li_um_per_pixel_y li = image_mpp_y img * 2 ^ nat L)"
proof -
  note o = load_image_from_file_opened [OF assms(1,2)]
  have rng: "nat L < length (image_level_images img)"
    using assms(3,4) o(15,16) by linarith
  show ?thesis
  proof (rule opened_level_cases [OF assms])
    assume "image_level_images img ! nat L = placeholder_level_image img L level_image_zero"
    then show ?thesis
      using o(12) rng assms(3) by (simp add: placeholder_of_zero exp2f_nonneg)
  next
    fix idx osr
    assume i0: "0 \<le> idx" and i1: "idx < wsi_level_count (image_wsi img)"
      and dl: "wl_downsample_level (wsi_levels (image_wsi img) ! nat idx) = L"
      and ex: "existing_level_image level_image_zero idx (wsi_levels (image_wsi img) ! nat idx)
             = Inr (image_level_images img ! nat L)"
      and nok: "native_level_ok cfg osr (image_mpp_x img) (image_mpp_y img) idx
             (wsi_levels (image_wsi img) ! nat idx)"
    note e = existing_level_image_Inr [OF ex]
    from nok have "wl_downsample_factor (wsi_levels (image_wsi img) ! nat idx) =
        exp2f (wl_downsample_level (wsi_levels (image_wsi img) ! nat idx))"
      by (simp add: native_level_ok_def)
    then have f: "li_downsample_factor (image_level_images img ! nat L) = 2 ^ nat L"
      unfolding e(3) dl using assms(3) by (simp add: exp2f_nonneg)
    have m: "wl_downsample_level (wsi_levels (image_wsi img) !
        nat (li_pyramid_image_index (image_level_images img ! nat L))) = L"
      unfolding e(2) by (rule dl)
    show ?thesis
      using o(12) rng f m e(1) i0 i1 by (auto simp: Let_def e(2))
  qed
qed

theorem level_stack_dense_powers_of_two_witness:
  "\<exists>img. load_image_from_file example_config True (Some example_slide) = Inr img \<and>
     image_is_valid img \<and> 1 < image_level_count img \<and>
     li_exists (image_level_images img ! nat 0) \<and>
     li_downsample_factor (image_level_images img ! nat 0) = 2 ^ nat 0 \<and>
     \<not> li_exists (image_level_images img ! nat 1) \<and>
     li_downsample_factor (image_level_images img ! nat 1) = 2 ^ nat 1 \<and>
     li_tile_width (image_level_images img ! nat 1) = image_tile_width img \<and>
     li_um_per_pixel_x (image_level_images img ! nat 1) = image_mpp_x img * 2 ^ nat 1 \<and>
     li_um_per_pixel_y (image_level_images img ! nat 1) = image_mpp_y img * 2 ^ nat 1"
proof -
  obtain img where img: "load_image_from_file example_config True (Some example_slide) = Inr img"
    using example_opened(1)
    by (cases "load_image_from_file example_config True (Some example_slide)") simp_all
  with example_opened(2) have v: "image_is_valid img" by simp
  note ex = example_levels [unfolded img, simplified]
  have c0: "(0::int) \<le> 0" "0 < image_level_count img"
    and c1: "(0::int) \<le> 1" "1 < image_level_count img"
    using ex(1) by simp_all
  from level_stack_dense_powers_of_two [OF img v c0]
    level_stack_dense_powers_of_two [OF img v c1]
  show ?thesis
    using img v c1(2) by (simp add: Let_def ex)
qed

text \<open>
  Claim C9. In an opened image, every tile slot \<open>i\<close> of a level that exists holds its own
  index and grid position: \<open>tile_index = i\<close>, \<open>tile_x = i mod width_in_tiles\<close> and
  \<open>tile_y = i div width_in_tiles\<close>.
\<close>

theorem tiles_store_their_position:
  assumes "load_image_from_file cfg avail opened = Inr img" and "image_is_valid img"
    and "0 \<le> L" and "L < image_level_count img"
    and "li_exists (image_level_images img ! nat L)"
    and "0 \<le> i" and "i < li_tile_count (image_level_images img ! nat L)"
  shows "let li = image_level_images img ! nat L in
         nat i < length (li_tiles li) \<and>
         t_tile_index (li_tiles li ! nat i) = i \<and>
         t_tile_x (li_tiles li ! nat i) = i mod li_width_in_tiles li \<and>
         t_tile_y (li_tiles li ! nat i) = i div li_width_in_tiles li"
proof (rule opened_level_cases [OF assms(1-4)])
  assume "image_level_images img ! nat L = placeholder_level_image img L level_image_zero"
  with assms(5) show ?thesis by simp
next
  fix idx
  assume ex: "existing_level_image level_image_zero idx (wsi_levels (image_wsi img) ! nat idx)
             = Inr (image_level_images img ! nat L)"
  note e = existing_level_image_Inr [OF ex]
  from e(17) assms(6,7) have "li_tiles (image_level_images img ! nat L) ! nat i =
     \<lparr>t_tile_index = i, t_tile_x = c_mod i (li_width_in_tiles (image_level_images img ! nat L)),
      t_tile_y = c_div i (li_width_in_tiles (image_level_images img ! nat L))\<rparr>"
    by blast
  moreover have "nat i < length (li_tiles (image_level_images img ! nat L))"
    unfolding e(16) using assms(6,7) by linarith
  ultimately show ?thesis
    using assms(6) e(13) by (simp add: Let_def c_mod_nonneg c_div_nonneg)
qed

theorem tiles_store_their_position_witness:
  "\<exists>img. load_image_from_file example_config True (Some example_slide) = Inr img \<and>
     image_is_valid img \<and> 0 < image_level_count img \<and>
     li_exists (image_level_images img ! nat 0) \<and>
     4 < li_tile_count (image_level_images img ! nat 0) \<and>
     li_width_in_tiles (image_level_images img ! nat 0) = 3 \<and>
     t_tile_index (li_tiles (image_level_images img ! nat 0) ! nat 4) = 4 \<and>
     t_tile_x (li_tiles (image_level_images img ! nat 0) ! nat 4) = 4 mod 3 \<and>
     t_tile_y (li_tiles (image_level_images img ! nat 0) ! nat 4) = 4 div 3"
proof -
  obtain img where img: "load_image_from_file example_config True (Some example_slide) = Inr img"
    using example_opened(1)
    by (cases "load_image_from_file example_config True (Some example_slide)") simp_all
  with example_opened(2) have v: "image_is_valid img" by simp
  note ex = example_levels [unfolded img, simplified]
  have c0: "(0::int) \<le> 0" "0 < image_level_count img" using ex(1) by simp_all
  have e0: "li_exists (image_level_images img ! nat 0)"
    and w: "li_width_in_tiles (image_level_images img ! nat 0) = 3"
    and i: "(0::int) \<le> 4" "4 < li_tile_count (image_level_images img ! nat 0)"
    by (simp_all add: ex)
  from tiles_store_their_position [OF img v c0 e0 i]
  show ?thesis
    using img v c0(2) e0 i(2) w by (simp add: Let_def)
qed

lemma cell_row_le:
  fixes a r c pitch :: int
  assumes "0 \<le> c" and "c < pitch"
  shows "a * pitch \<le> r * pitch + c \<longleftrightarrow> a \<le> r"
proof
  assume le: "a * pitch \<le> r * pitch + c"
  show "a \<le> r"
  proof (rule ccontr)
    assume "\<not> a \<le> r"
    then have "r + 1 \<le> a" by simp
    moreover have "0 \<le> pitch" using assms by simp
    ultimately have "(r + 1) * pitch \<le> a * pitch" by (rule mult_right_mono)
    with le assms show False by (simp add: algebra_simps)
  qed
next
  assume "a \<le> r"
  moreover have "0 \<le> pitch" using assms by simp
  ultimately have "a * pitch \<le> r * pitch" by (rule mult_right_mono)
  with assms show "a * pitch \<le> r * pitch + c" by linarith
qed

lemma cell_row_less:
  fixes b r c pitch :: int
  assumes "0 \<le> c" and "c < pitch"
  shows "r * pitch + c < b * pitch \<longleftrightarrow> r < b"
proof -
  have "b * pitch \<le> r * pitch + c \<longleftrightarrow> b \<le> r" using assms by (rule cell_row_le)
  then show ?thesis by linarith
qed

lemma cell_in_row_range:
  fixes row r c pitch a b :: int
  assumes "0 \<le> c" and "c < pitch" and "0 \<le> a" and "b \<le> pitch"
  shows "(row * pitch + a \<le> r * pitch + c \<and> r * pitch + c < row * pitch + b)
           \<longleftrightarrow> (r = row \<and> a \<le> c \<and> c < b)"
proof (cases "r = row")
  case True
  then show ?thesis by simp
next
  case False
  have p: "0 \<le> pitch" using assms by simp
  show ?thesis
  proof (cases "r < row")
    case True
    then have "r + 1 \<le> row" by simp
    from mult_right_mono [OF this p] have "(r + 1) * pitch \<le> row * pitch" .
    with assms have "\<not> row * pitch + a \<le> r * pitch + c" by (simp add: algebra_simps)
    with False show ?thesis by simp
  next
    case nl: False
    with False have "row + 1 \<le> r" by simp
    from mult_right_mono [OF this p] have "(row + 1) * pitch \<le> r * pitch" .
    with assms have "\<not> r * pitch + c < row * pitch + b" by (simp add: algebra_simps)
    with False show ?thesis by simp
  qed
qed

lemma nth_fill:
  fixes off n j :: nat
  assumes "off + n \<le> length xs" and "j < length xs"
  shows "(take off xs @ replicate n c @ drop (off + n) xs) ! j =
           (if off \<le> j \<and> j < off + n then c else xs ! j)"
proof -
  have ol: "off \<le> length xs" using assms(1) by simp
  consider "j < off" | "off \<le> j" "j < off + n" | "off + n \<le> j" by linarith
  then show ?thesis
  proof cases
    case 1
    then show ?thesis using ol assms(2) by (simp add: nth_append min_absorb2)
  next
    case 2
    then have "\<not> j < off" "j - off < n" by simp_all
    then show ?thesis using 2 ol by (simp add: nth_append min_absorb2)
  next
    case 3
    then have a: "\<not> j < off" and b: "\<not> j - off < n" by simp_all
    have "(take off xs @ replicate n c @ drop (off + n) xs) ! j
            = drop (off + n) xs ! (j - off - n)"
      using a b ol by (simp add: nth_append min_absorb2)
    also have "\<dots> = xs ! (off + n + (j - off - n))"
      using assms(1) by (intro nth_drop)
    also have "off + n + (j - off - n) = j" using 3 by simp
    finally show ?thesis using 3 by simp
  qed
qed

lemma memset_Inr:
  assumes "0 \<le> off" and "0 \<le> n" and "off + n \<le> int (length mem)"
  shows "\<exists>m. memset mem off c n = Inr m \<and> length m = length mem \<and>
           (\<forall>k. 0 \<le> k \<and> k < int (length mem) \<longrightarrow>
              m ! nat k = (if off \<le> k \<and> k < off + n then c else mem ! nat k))"
proof -
  let ?m = "take (nat off) mem @ replicate (nat n) c @ drop (nat off + nat n) mem"
  have split: "nat (off + n) = nat off + nat n" using assms by (simp add: nat_add_distrib)
  have rng: "nat off + nat n \<le> length mem" using assms by linarith
  have eq: "memset mem off c n = Inr ?m" using assms by (simp add: memset_def split)
  have len: "length ?m = length mem" using rng by simp
  have nth: "?m ! nat k = (if off \<le> k \<and> k < off + n then c else mem ! nat k)"
    if k: "0 \<le> k \<and> k < int (length mem)" for k
  proof -
    from k have "nat k < length mem" by linarith
    from nth_fill [OF rng this, of c]
    have "?m ! nat k = (if nat off \<le> nat k \<and> nat k < nat off + nat n then c else mem ! nat k)" .
    moreover have "(nat off \<le> nat k \<and> nat k < nat off + nat n) \<longleftrightarrow> (off \<le> k \<and> k < off + n)"
      using k assms by linarith
    ultimately show ?thesis by simp
  qed
  from eq len nth show ?thesis by blast
qed

lemma excess_count_bounds:
  fixes excess side :: real and n :: int
  assumes "0 < excess" and "0 < side" and "excess \<le> side" and "0 \<le> n"
  shows "0 \<le> float_to_int ((excess / side) * of_int n)"
    and "float_to_int ((excess / side) * of_int n) \<le> n"
proof -
  have q0: "0 \<le> excess / side" and q1: "excess / side \<le> 1"
    using assms(1,2,3) by simp_all
  have n0: "(0::real) \<le> of_int n" using assms(4) by simp
  have nn: "0 \<le> (excess / side) * of_int n" using q0 n0 by (rule mult_nonneg_nonneg)
  have le: "(excess / side) * of_int n \<le> of_int n"
    using mult_right_mono [OF q1 n0] by simp
  show "0 \<le> float_to_int ((excess / side) * of_int n)"
    using nn by (simp add: float_to_int_def)
  have "\<lfloor>(excess / side) * of_int n\<rfloor> \<le> n"
    using le by (simp add: floor_le_iff)
  then show "float_to_int ((excess / side) * of_int n) \<le> n"
    using nn by (simp add: float_to_int_def)
qed

lemma clear_excess_columns_Inr:
  "0 \<le> row \<Longrightarrow> 0 \<le> nw \<Longrightarrow> 0 \<le> e \<Longrightarrow> pitch = (nw + e) * BYTES_PER_PIXEL \<Longrightarrow>
   new_h * pitch \<le> int (length mem) \<Longrightarrow>
   \<exists>m. clear_excess_columns mem row new_h pitch nw e = Inr m \<and> length m = length mem \<and>
     (\<forall>r c. 0 \<le> r \<and> 0 \<le> c \<and> c < pitch \<and> r * pitch + c < int (length mem) \<longrightarrow>
        m ! nat (r * pitch + c) =
          (if row \<le> r \<and> r < new_h \<and> nw * BYTES_PER_PIXEL \<le> c then 0
           else mem ! nat (r * pitch + c)))"
proof (induction mem row new_h pitch nw e rule: clear_excess_columns.induct)
  case (1 mem row new_h pitch nw e)
  have p0: "0 \<le> pitch" using "1.prems"(2,3,4) by (simp add: BYTES_PER_PIXEL_def)
  show ?case
  proof (cases "row < new_h")
    case False
    then have "clear_excess_columns mem row new_h pitch nw e = Inr mem"
      by (simp add: clear_excess_columns.simps)
    with False show ?thesis by auto
  next
    case True
    let ?off = "row * pitch + nw * BYTES_PER_PIXEL"
    let ?n = "e * BYTES_PER_PIXEL"
    have end_eq: "?off + ?n = (row + 1) * pitch"
      using "1.prems"(4) by (simp add: algebra_simps)
    have off0: "0 \<le> ?off"
      using "1.prems"(1,2) p0 by (simp add: BYTES_PER_PIXEL_def)
    have n0: "0 \<le> ?n" using "1.prems"(3) by (simp add: BYTES_PER_PIXEL_def)
    have "row + 1 \<le> new_h" using True by simp
    from mult_right_mono [OF this p0] have "(row + 1) * pitch \<le> new_h * pitch" .
    with "1.prems"(5) end_eq have in_range: "?off + ?n \<le> int (length mem)" by simp
    from memset_Inr [OF off0 n0 in_range, of 0] obtain m1 where
      ms: "memset mem ?off 0 ?n = Inr m1" and len1: "length m1 = length mem" and
      nth1: "\<forall>k. 0 \<le> k \<and> k < int (length mem) \<longrightarrow>
              m1 ! nat k = (if ?off \<le> k \<and> k < ?off + ?n then 0 else mem ! nat k)"
      by blast
    have unfold: "clear_excess_columns mem row new_h pitch nw e =
        clear_excess_columns m1 (row + 1) new_h pitch nw e"
      using True ms by (simp add: clear_excess_columns.simps [of mem row])
    have r1: "0 \<le> row + 1" using "1.prems"(1) by simp
    have l1: "new_h * pitch \<le> int (length m1)" using "1.prems"(5) len1 by simp
    from "1.IH" [OF True ms r1 "1.prems"(2,3,4) l1] obtain m where
      res: "clear_excess_columns m1 (row + 1) new_h pitch nw e = Inr m" and
      len: "length m = length m1" and
      nth: "\<forall>r c. 0 \<le> r \<and> 0 \<le> c \<and> c < pitch \<and> r * pitch + c < int (length m1) \<longrightarrow>
        m ! nat (r * pitch + c) =
          (if row + 1 \<le> r \<and> r < new_h \<and> nw * BYTES_PER_PIXEL \<le> c then 0
           else m1 ! nat (r * pitch + c))"
      by blast
    have cell: "m ! nat (r * pitch + c) =
          (if row \<le> r \<and> r < new_h \<and> nw * BYTES_PER_PIXEL \<le> c then 0
           else mem ! nat (r * pitch + c))"
      if rc: "0 \<le> r \<and> 0 \<le> c \<and> c < pitch \<and> r * pitch + c < int (length mem)" for r c
    proof -
      have k0: "0 \<le> r * pitch + c" using rc p0 by simp
      have a: "m ! nat (r * pitch + c) =
          (if row + 1 \<le> r \<and> r < new_h \<and> nw * BYTES_PER_PIXEL \<le> c then 0
           else m1 ! nat (r * pitch + c))"
        using nth rc len1 by simp
      have b: "m1 ! nat (r * pitch + c) =
          (if ?off \<le> r * pitch + c \<and> r * pitch + c < ?off + ?n then 0
           else mem ! nat (r * pitch + c))"
        using nth1 k0 rc by blast
      have nw0: "0 \<le> nw * BYTES_PER_PIXEL" using "1.prems"(2) by (simp add: BYTES_PER_PIXEL_def)
      have up: "nw * BYTES_PER_PIXEL + e * BYTES_PER_PIXEL \<le> pitch"
        using "1.prems"(4) by (simp add: algebra_simps)
      have "(?off \<le> r * pitch + c \<and> r * pitch + c < row * pitch
                + (nw * BYTES_PER_PIXEL + e * BYTES_PER_PIXEL))
          \<longleftrightarrow> (r = row \<and> nw * BYTES_PER_PIXEL \<le> c
                \<and> c < nw * BYTES_PER_PIXEL + e * BYTES_PER_PIXEL)"
        using rc nw0 up by (intro cell_in_row_range) simp_all
      moreover have "nw * BYTES_PER_PIXEL + e * BYTES_PER_PIXEL = pitch"
        using "1.prems"(4) by (simp add: algebra_simps)
      ultimately have c: "(?off \<le> r * pitch + c \<and> r * pitch + c < ?off + ?n)
          \<longleftrightarrow> (r = row \<and> nw * BYTES_PER_PIXEL \<le> c)"
        using rc by (simp add: add.assoc)
      show ?thesis
        unfolding a b c using True by auto
    qed
    from res len len1 cell show ?thesis unfolding unfold by auto
  qed
qed

lemma clear_excess_rows_Inr:
  assumes "0 < li_y_tile_side_in_um li" and "0 \<le> li_tile_width li"
    and "0 \<le> li_tile_height li" and "yex \<le> li_y_tile_side_in_um li"
    and "int (length mem) = li_tile_width li * li_tile_height li * BYTES_PER_PIXEL"
  shows "\<exists>m. clear_excess_rows li yex mem = Inr (li_tile_height li - excess_rows li yex, m) \<and>
           length m = length mem \<and>
           0 \<le> excess_rows li yex \<and> excess_rows li yex \<le> li_tile_height li \<and>
           (\<forall>r c. 0 \<le> r \<and> r < li_tile_height li \<and> 0 \<le> c \<and>
                  c < li_tile_width li * BYTES_PER_PIXEL \<longrightarrow>
              m ! nat (r * (li_tile_width li * BYTES_PER_PIXEL) + c) =
                (if li_tile_height li - excess_rows li yex \<le> r then 0
                 else mem ! nat (r * (li_tile_width li * BYTES_PER_PIXEL) + c)))"
proof (cases "0 < yex")
  case False
  then have "clear_excess_rows li yex mem = Inr (li_tile_height li - excess_rows li yex, mem)"
    by (simp add: clear_excess_rows_def excess_rows_def Let_def)
  moreover have "excess_rows li yex = 0" using False by (simp add: excess_rows_def)
  ultimately show ?thesis using assms(3) by auto
next
  case True
  let ?pitch = "li_tile_width li * BYTES_PER_PIXEL"
  let ?er = "excess_rows li yex"
  let ?h = "li_tile_height li - ?er"
  have er: "?er = float_to_int ((yex / li_y_tile_side_in_um li) * of_int (li_tile_height li))"
    using True by (simp add: excess_rows_def)
  have er0: "0 \<le> ?er" and er1: "?er \<le> li_tile_height li"
    unfolding er using excess_count_bounds [OF True assms(1,4,3)] by simp_all
  have p0: "0 \<le> ?pitch" using assms(2) by (simp add: BYTES_PER_PIXEL_def)
  have off0: "0 \<le> ?h * ?pitch" using er1 p0 by simp
  have n0: "0 \<le> ?er * ?pitch" using er0 p0 by simp
  have total: "?h * ?pitch + ?er * ?pitch = li_tile_height li * ?pitch"
    by (simp add: algebra_simps)
  have len: "int (length mem) = li_tile_height li * ?pitch"
    using assms(5) by (simp add: algebra_simps)
  have in_range: "?h * ?pitch + ?er * ?pitch \<le> int (length mem)"
    unfolding total len by simp
  from memset_Inr [OF off0 n0 in_range, of 0] obtain m where
    ms: "memset mem (?h * ?pitch) 0 (?er * ?pitch) = Inr m" and lm: "length m = length mem" and
    nth: "\<forall>k. 0 \<le> k \<and> k < int (length mem) \<longrightarrow>
            m ! nat k = (if ?h * ?pitch \<le> k \<and> k < ?h * ?pitch + ?er * ?pitch then 0
                         else mem ! nat k)"
    by blast
  have res: "clear_excess_rows li yex mem = Inr (?h, m)"
    unfolding clear_excess_rows_def Let_def er [symmetric] using True er0 ms by simp
  have cell: "m ! nat (r * ?pitch + c) =
      (if ?h \<le> r then 0 else mem ! nat (r * ?pitch + c))"
    if rc: "0 \<le> r \<and> r < li_tile_height li \<and> 0 \<le> c \<and> c < ?pitch" for r c
  proof -
    from rc have c0: "0 \<le> c" and c1: "c < ?pitch" by simp_all
    have k0: "0 \<le> r * ?pitch + c" using rc p0 by simp
    have k1: "r * ?pitch + c < li_tile_height li * ?pitch"
      using cell_row_less [OF c0 c1, of r "li_tile_height li"] rc by simp
    have "m ! nat (r * ?pitch + c) =
        (if ?h * ?pitch \<le> r * ?pitch + c \<and> r * ?pitch + c < ?h * ?pitch + ?er * ?pitch then 0
         else mem ! nat (r * ?pitch + c))"
      using nth k0 k1 unfolding len by blast
    moreover have "?h * ?pitch \<le> r * ?pitch + c \<longleftrightarrow> ?h \<le> r"
      using c0 c1 by (rule cell_row_le)
    ultimately show ?thesis using k1 unfolding total by simp
  qed
  from res lm er0 er1 cell show ?thesis by blast
qed

lemma trim_tile_Inr:
  assumes "0 < li_x_tile_side_in_um li" and "0 < li_y_tile_side_in_um li"
    and "0 \<le> li_tile_width li" and "0 \<le> li_tile_height li"
    and "xex \<le> li_x_tile_side_in_um li" and "yex \<le> li_y_tile_side_in_um li"
    and "int (length mem) = li_tile_width li * li_tile_height li * BYTES_PER_PIXEL"
  shows "\<exists>m. trim_tile li xex yex mem = Inr m \<and> length m = length mem \<and>
           (\<forall>r c. 0 \<le> r \<and> r < li_tile_height li \<and> 0 \<le> c \<and>
                  c < li_tile_width li * BYTES_PER_PIXEL \<longrightarrow>
              m ! nat (r * (li_tile_width li * BYTES_PER_PIXEL) + c) =
                (if li_tile_height li - excess_rows li yex \<le> r \<or>
                    (li_tile_width li - excess_pixels li xex) * BYTES_PER_PIXEL \<le> c
                 then 0
                 else mem ! nat (r * (li_tile_width li * BYTES_PER_PIXEL) + c)))"
proof -
  let ?pitch = "li_tile_width li * BYTES_PER_PIXEL"
  let ?h = "li_tile_height li - excess_rows li yex"
  from clear_excess_rows_Inr [OF assms(2,3,4,6,7)] obtain m1 where
    rows: "clear_excess_rows li yex mem = Inr (?h, m1)" and l1: "length m1 = length mem" and
    er0: "0 \<le> excess_rows li yex" and er1: "excess_rows li yex \<le> li_tile_height li" and
    nth1: "\<forall>r c. 0 \<le> r \<and> r < li_tile_height li \<and> 0 \<le> c \<and> c < ?pitch \<longrightarrow>
              m1 ! nat (r * ?pitch + c) =
                (if ?h \<le> r then 0 else mem ! nat (r * ?pitch + c))"
    by blast
  have p0: "0 \<le> ?pitch" using assms(3) by (simp add: BYTES_PER_PIXEL_def)
  have len: "int (length mem) = li_tile_height li * ?pitch"
    using assms(7) by (simp add: algebra_simps)
  show ?thesis
  proof (cases "0 < xex")
    case False
    then have res: "trim_tile li xex yex mem = Inr m1"
      using rows by (simp add: trim_tile_def Let_def)
    have "excess_pixels li xex = 0" using False by (simp add: excess_pixels_def)
    with res l1 nth1 show ?thesis by auto
  next
    case True
    let ?ep = "excess_pixels li xex"
    let ?nw = "li_tile_width li - ?ep"
    have ep: "?ep = float_to_int ((xex / li_x_tile_side_in_um li) * of_int (li_tile_width li))"
      using True by (simp add: excess_pixels_def)
    have ep0: "0 \<le> ?ep" and ep1: "?ep \<le> li_tile_width li"
      unfolding ep using excess_count_bounds [OF True assms(1,5,3)] by simp_all
    have nw0: "0 \<le> ?nw" using ep1 by simp
    have pe: "?pitch = (?nw + ?ep) * BYTES_PER_PIXEL" by simp
    have "?h \<le> li_tile_height li" using er0 by simp
    from mult_right_mono [OF this p0] have hl: "?h * ?pitch \<le> int (length m1)"
      unfolding l1 len .
    from clear_excess_columns_Inr [OF order_refl nw0 ep0 pe hl] obtain m where
      cols: "clear_excess_columns m1 0 ?h ?pitch ?nw ?ep = Inr m" and
      lm: "length m = length m1" and
      nth: "\<forall>r c. 0 \<le> r \<and> 0 \<le> c \<and> c < ?pitch \<and> r * ?pitch + c < int (length m1) \<longrightarrow>
        m ! nat (r * ?pitch + c) =
          (if 0 \<le> r \<and> r < ?h \<and> ?nw * BYTES_PER_PIXEL \<le> c then 0
           else m1 ! nat (r * ?pitch + c))"
      by blast
    have res: "trim_tile li xex yex mem = Inr m"
      unfolding trim_tile_def Let_def ep [symmetric] using True rows ep0 cols by simp
    have cell: "m ! nat (r * ?pitch + c) =
        (if ?h \<le> r \<or> ?nw * BYTES_PER_PIXEL \<le> c then 0 else mem ! nat (r * ?pitch + c))"
      if rc: "0 \<le> r \<and> r < li_tile_height li \<and> 0 \<le> c \<and> c < ?pitch" for r c
    proof -
      from rc have c0: "0 \<le> c" and c1: "c < ?pitch" by simp_all
      have k1: "r * ?pitch + c < int (length m1)"
        unfolding l1 len using cell_row_less [OF c0 c1, of r "li_tile_height li"] rc by simp
      have a: "m ! nat (r * ?pitch + c) =
          (if 0 \<le> r \<and> r < ?h \<and> ?nw * BYTES_PER_PIXEL \<le> c then 0
           else m1 ! nat (r * ?pitch + c))"
        using nth rc k1 by blast
      have b: "m1 ! nat (r * ?pitch + c) =
          (if ?h \<le> r then 0 else mem ! nat (r * ?pitch + c))"
        using nth1 rc by blast
      show ?thesis unfolding a b using rc by auto
    qed
    from res lm l1 cell show ?thesis by auto
  qed
qed

lemmas tile_eval =
  load_tile_func_def backend_decode_def trim_tile_def clear_excess_rows_def
  clear_excess_columns.simps memset_def call_callback_def
  viewer_notify_load_tile_completed_def viewer_upload_already_cached_tile_to_gpu_def
  add_work_queue_entry_def BYTES_PER_PIXEL_def float_to_int_def Let_def
  example_task_def example_image_def example_level_image_def
  example_half_level_image_def example_placeholder_def
  example_state_def example_decoders_def failing_decoders_def
  task_level_image_def task_tile_index_def task_tile_x_excess_def task_tile_y_excess_def
  task_ready_def completion_of_def excess_rows_def excess_pixels_def

text \<open>
  Claim C7. A tile job on a level whose \<^verbatim>\<open>level_image_t\<close> has \<open>exists = false\<close> ends in
  the failed assertion \<^verbatim>\<open>ASSERT(level_image->exists)\<close>, whatever the decoders would
  return: nothing is allocated, decoded or sent.
\<close>

theorem placeholder_level_is_not_decoded:
  assumes "0 \<le> task_level task"
    and "task_level task < int (length (image_level_images (task_image task)))"
    and "\<not> li_exists (image_level_images (task_image task) ! nat (task_level task))"
  shows "load_tile_func dec logical_thread_index task st
           = Inl (AssertionFailure ''level_image->exists'')"
  using assms by (simp add: load_tile_func_def Let_def)

theorem placeholder_level_is_not_decoded_witness:
  "0 \<le> task_level (example_task IMAGE_BACKEND_TIFF 2 0) \<and>
   task_level (example_task IMAGE_BACKEND_TIFF 2 0)
     < int (length (image_level_images (task_image (example_task IMAGE_BACKEND_TIFF 2 0)))) \<and>
   \<not> li_exists (image_level_images (task_image (example_task IMAGE_BACKEND_TIFF 2 0))
                  ! nat (task_level (example_task IMAGE_BACKEND_TIFF 2 0))) \<and>
   load_tile_func example_decoders 1 (example_task IMAGE_BACKEND_TIFF 2 0) example_state
     = Inl (AssertionFailure ''level_image->exists'')"
proof -
  have a: "0 \<le> task_level (example_task IMAGE_BACKEND_TIFF 2 0)"
    and b: "task_level (example_task IMAGE_BACKEND_TIFF 2 0)
     < int (length (image_level_images (task_image (example_task IMAGE_BACKEND_TIFF 2 0))))"
    and c: "\<not> li_exists (image_level_images (task_image (example_task IMAGE_BACKEND_TIFF 2 0))
                  ! nat (task_level (example_task IMAGE_BACKEND_TIFF 2 0)))"
    by (simp_all add: example_task_def example_image_def example_placeholder_def
          eval_nat_numeral)
  from placeholder_level_is_not_decoded [OF a b c] a b c show ?thesis by blast
qed

text \<open>
  Claim C1, as stated, fails: the DICOM decoder returns \<^verbatim>\<open>NULL\<close> for tile 1 of level 0,
  and the job still puts a completion message on the empty completion queue, with
  \<open>pixel_memory = NULL\<close>.
\<close>

theorem failed_decode_counterexample:
  "dicom_wsi_decode_tile_to_bgra failing_decoders 0 1 = None \<and>
   load_tile_func failing_decoders 1 (example_task IMAGE_BACKEND_DICOM 0 1) example_state =
     Inr \<lparr>global_completion_queue =
            \<lparr>queue_entries =
               [\<lparr>entry_callback = Callback_viewer_notify_load_tile_completed,
                 entry_userdata =
                   \<lparr>ct_resource_id = 7, ct_pixel_memory = None, ct_tile_width = 2,
                    ct_tile_height = 2, ct_scale = 0, ct_tile_index = 1,
                    ct_want_gpu_residency = True\<rparr>\<rparr>],
             queue_capacity = 1024\<rparr>,
          live_pixel_buffers = 0\<rparr>"
  by (simp add: tile_eval)


lemma load_tile_func_ready:
  assumes "task_ready task"
  shows "load_tile_func dec thread task st =
     (case backend_decode dec thread (task_image task) (task_level_image task) (task_level task)
             (task_tile_index task) (task_tile_x task) (task_tile_y task)
             (task_tile_x_excess task) (task_tile_y_excess task)
             (replicate (nat (li_tile_width (task_level_image task)
                                * li_tile_height (task_level_image task) * BYTES_PER_PIXEL)) 0xFF)
             (st\<lparr>live_pixel_buffers := live_pixel_buffers st + 1\<rparr>) of
        Inl e \<Rightarrow> Inl e
      | Inr (failed, mem, st2) \<Rightarrow>
          (case task_completion_callback task of
             None \<Rightarrow> Inl (AssertionFailure ''task->completion_callback'')
           | Some callback \<Rightarrow>
               Inr (call_callback callback thread
                      (completion_of task (if failed then None else Some mem))
                      (if failed
                       then st2\<lparr>live_pixel_buffers := live_pixel_buffers st2 - 1\<rparr>
                       else st2))))"
  using assms
  by (cases "task_completion_callback task")
     (simp_all add: load_tile_func_def task_ready_def task_level_image_def task_tile_index_def
        task_tile_x_excess_def task_tile_y_excess_def completion_of_def Let_def
      split: sum.splits prod.splits)

lemma temp_memory_length:
  assumes "0 \<le> w" and "0 \<le> h"
  shows "int (length (replicate (nat (w * h * BYTES_PER_PIXEL)) (c :: u8)))
           = w * h * BYTES_PER_PIXEL"
  using assms by (simp add: BYTES_PER_PIXEL_def)

text \<open>
  Claim C1, as amended. When the decode call of the DICOM or TIFF backend returns
  \<^verbatim>\<open>NULL\<close>, the job frees its pixel buffer and still hands a completion task to its
  callback, with \<open>pixel_memory = NULL\<close>. With \<^verbatim>\<open>viewer_notify_load_tile_completed\<close> as
  callback and room in the completion queue, the state after the job is the state before
  it with that one message appended to the queue: the number of live buffers is
  unchanged, and the failure is seen as a message without pixels.
\<close>

theorem failed_decode_sends_empty_completion:
  assumes "task_ready task"
    and "task_completion_callback task = Some Callback_viewer_notify_load_tile_completed"
    and "length (queue_entries (global_completion_queue st))
           < queue_capacity (global_completion_queue st)"
    and "image_backend (task_image task) = IMAGE_BACKEND_DICOM \<and>
           dicom_wsi_decode_tile_to_bgra dec (task_level task) (task_tile_index task) = None
         \<or> image_backend (task_image task) = IMAGE_BACKEND_TIFF \<and>
           tiff_decode_tile dec logical_thread_index
             (li_pyramid_image_index (task_level_image task)) (task_tile_index task)
             (task_level task) (task_tile_x task) (task_tile_y task) = None \<and>
           0 \<le> li_tile_width (task_level_image task) \<and>
           0 \<le> li_tile_height (task_level_image task) \<and>
           task_tile_x_excess task \<le> li_x_tile_side_in_um (task_level_image task) \<and>
           task_tile_y_excess task \<le> li_y_tile_side_in_um (task_level_image task)"
  shows "load_tile_func dec logical_thread_index task st =
           Inr (st\<lparr>global_completion_queue :=
                  (global_completion_queue st)
                    \<lparr>queue_entries := queue_entries (global_completion_queue st)
                       @ [\<lparr>entry_callback = Callback_viewer_notify_load_tile_completed,
                           entry_userdata = completion_of task None\<rparr>]\<rparr>\<rparr>)"
proof -
  let ?li = "task_level_image task"
  let ?temp = "replicate (nat (li_tile_width ?li * li_tile_height ?li * BYTES_PER_PIXEL))
                 (0xFF :: u8)"
  let ?st1 = "st\<lparr>live_pixel_buffers := live_pixel_buffers st + 1\<rparr>"
  have "\<exists>mem. backend_decode dec logical_thread_index (task_image task) ?li (task_level task)
             (task_tile_index task) (task_tile_x task) (task_tile_y task)
             (task_tile_x_excess task) (task_tile_y_excess task) ?temp ?st1
          = Inr (True, mem, ?st1)"
    using assms(4)
  proof (elim disjE conjE)
    assume "image_backend (task_image task) = IMAGE_BACKEND_DICOM"
      and "dicom_wsi_decode_tile_to_bgra dec (task_level task) (task_tile_index task) = None"
    then show ?thesis by (simp add: backend_decode_def)
  next
    assume b: "image_backend (task_image task) = IMAGE_BACKEND_TIFF"
      and d: "tiff_decode_tile dec logical_thread_index
             (li_pyramid_image_index ?li) (task_tile_index task)
             (task_level task) (task_tile_x task) (task_tile_y task) = None"
      and w: "0 \<le> li_tile_width ?li" and h: "0 \<le> li_tile_height ?li"
      and x: "task_tile_x_excess task \<le> li_x_tile_side_in_um ?li"
      and y: "task_tile_y_excess task \<le> li_y_tile_side_in_um ?li"
    from assms(1) have sx: "0 < li_x_tile_side_in_um ?li" and sy: "0 < li_y_tile_side_in_um ?li"
      by (simp_all add: task_ready_def)
    from trim_tile_Inr [OF sx sy w h x y temp_memory_length [OF w h]]
    obtain m where "trim_tile ?li (task_tile_x_excess task) (task_tile_y_excess task) ?temp
        = Inr m" by blast
    with b d show ?thesis by (simp add: backend_decode_def)
  qed
  then obtain mem where
    "backend_decode dec logical_thread_index (task_image task) ?li (task_level task)
             (task_tile_index task) (task_tile_x task) (task_tile_y task)
             (task_tile_x_excess task) (task_tile_y_excess task) ?temp ?st1
          = Inr (True, mem, ?st1)" by blast
  then show ?thesis
    using assms(2,3)
    by (simp add: load_tile_func_ready [OF assms(1)] call_callback_def
          viewer_notify_load_tile_completed_def add_work_queue_entry_def)
qed

theorem failed_decode_sends_empty_completion_witness:
  "task_ready (example_task IMAGE_BACKEND_TIFF 0 1) \<and>
   tiff_decode_tile failing_decoders 1 0 1 0 1 0 = None \<and>
   load_tile_func failing_decoders 1 (example_task IMAGE_BACKEND_TIFF 0 1) example_state =
     Inr (example_state\<lparr>global_completion_queue :=
            (global_completion_queue example_state)
              \<lparr>queue_entries :=
                 [\<lparr>entry_callback = Callback_viewer_notify_load_tile_completed,
                   entry_userdata = completion_of (example_task IMAGE_BACKEND_TIFF 0 1) None\<rparr>]\<rparr>\<rparr>)"
proof -
  have r: "task_ready (example_task IMAGE_BACKEND_TIFF 0 1)"
    by (simp add: tile_eval)
  have c: "task_completion_callback (example_task IMAGE_BACKEND_TIFF 0 1)
      = Some Callback_viewer_notify_load_tile_completed"
    by (simp add: example_task_def)
  have q: "length (queue_entries (global_completion_queue example_state))
           < queue_capacity (global_completion_queue example_state)"
    by (simp add: example_state_def)
  have d: "tiff_decode_tile failing_decoders 1 0 1 0 1 0 = None"
    by (simp add: failing_decoders_def)
  have f: "image_backend (task_image (example_task IMAGE_BACKEND_TIFF 0 1)) = IMAGE_BACKEND_DICOM \<and>
           dicom_wsi_decode_tile_to_bgra failing_decoders
             (task_level (example_task IMAGE_BACKEND_TIFF 0 1))
             (task_tile_index (example_task IMAGE_BACKEND_TIFF 0 1)) = None
         \<or> image_backend (task_image (example_task IMAGE_BACKEND_TIFF 0 1)) = IMAGE_BACKEND_TIFF \<and>
           tiff_decode_tile failing_decoders 1
             (li_pyramid_image_index (task_level_image (example_task IMAGE_BACKEND_TIFF 0 1)))
             (task_tile_index (example_task IMAGE_BACKEND_TIFF 0 1))
             (task_level (example_task IMAGE_BACKEND_TIFF 0 1))
             (task_tile_x (example_task IMAGE_BACKEND_TIFF 0 1))
             (task_tile_y (example_task IMAGE_BACKEND_TIFF 0 1)) = None \<and>
           0 \<le> li_tile_width (task_level_image (example_task IMAGE_BACKEND_TIFF 0 1)) \<and>
           0 \<le> li_tile_height (task_level_image (example_task IMAGE_BACKEND_TIFF 0 1)) \<and>
           task_tile_x_excess (example_task IMAGE_BACKEND_TIFF 0 1)
             \<le> li_x_tile_side_in_um (task_level_image (example_task IMAGE_BACKEND_TIFF 0 1)) \<and>
           task_tile_y_excess (example_task IMAGE_BACKEND_TIFF 0 1)
             \<le> li_y_tile_side_in_um (task_level_image (example_task IMAGE_BACKEND_TIFF 0 1))"
    by (simp add: tile_eval)
  from failed_decode_sends_empty_completion [OF r c q f] r d show ?thesis
    by (simp add: example_state_def)
qed




end
